theory Spec2Isabelle
  imports Main "HOL-Library.AList"
begin

section \<open>Python built-ins used by the source\<close>

text \<open>
  Text is modelled as \<open>string\<close> (a list of 8-bit characters), Python's unbounded
  integers as \<open>int\<close>. The clock (\<open>time.time()\<close>, the Redis server's clock) is read in
  microseconds since the epoch. A naive \<open>datetime\<close>, as \<open>datetime.fromtimestamp\<close> and
  \<open>datetime.now()\<close> return it, is the reading of the local wall clock; it is kept as
  the microseconds that wall clock shows past its own \<open>1970-01-01 00:00:00\<close>, so that the
  difference of two of them is their \<open>timedelta\<close> in microseconds, a change of the
  local UTC offset between the two included.
\<close>

type_synonym usec = int

type_synonym datetime = int

definition usec_per_sec :: int where
  "usec_per_sec = 1000000"

definition trunc_div :: "int \<Rightarrow> int \<Rightarrow> int" where
  \<comment> \<open>\<open>int(a / b)\<close> for \<open>b > 0\<close>: Python's \<open>int()\<close> of a float rounds toward zero.\<close>
  "trunc_div a b = (if 0 \<le> a then a div b else - ((- a) div b))"

definition int_time :: "usec \<Rightarrow> int" where
  \<comment> \<open>\<open>int(time.time())\<close>: whole seconds of the clock reading.\<close>
  "int_time now = trunc_div now usec_per_sec"

definition fromtimestamp :: "(int \<Rightarrow> int) \<Rightarrow> int \<Rightarrow> datetime" where
  \<comment> \<open>\<open>datetime.fromtimestamp(s)\<close> for whole seconds \<open>s\<close>: the local wall clock at
      that moment. \<open>utcoffset s\<close> is the offset of local time from UTC in force at the
      timestamp \<open>s\<close>, in seconds (the time zone rules of the host, external).\<close>
  "fromtimestamp utcoffset s = (s + utcoffset s) * usec_per_sec"

definition datetime_now :: "(int \<Rightarrow> int) \<Rightarrow> usec \<Rightarrow> datetime" where
  \<comment> \<open>what \<open>datetime.now()\<close> returns when the clock reads \<open>now\<close>\<close>
  "datetime_now utcoffset now = now + utcoffset (now div usec_per_sec) * usec_per_sec"

subsection \<open>\<open>timedelta.total_seconds()\<close> and \<open>int()\<close> of a float\<close>

text \<open>
  \<open>total_seconds()\<close> divides the microseconds of a \<open>timedelta\<close> by \<open>10**6\<close> with
  Python's true division, whose result is the double nearest to the quotient (53
  significant bits, ties to the even significand). A double is kept as a pair \<open>(m, k)\<close>
  standing for \<open>m / 2 ^ k\<close>. Python's \<open>timedelta\<close> holds less than \<open>10 ^ 9\<close> days, so
  the quotient is below \<open>2 ^ 53\<close> and its double has no negative \<open>k\<close>; it is far from
  the overflow and underflow thresholds as well.
\<close>

type_synonym float = "int \<times> nat"

function binary_places :: "int \<Rightarrow> nat" where
  \<comment> \<open>for \<open>0 < a < 2 ^ 53 * 10 ^ 6\<close>: the \<open>k\<close> for which \<open>a / 10 ^ 6 * 2 ^ k\<close> lies
      between \<open>2 ^ 52\<close> and \<open>2 ^ 53\<close>, the number of binary places of the double
      nearest to \<open>a / 10 ^ 6\<close>\<close>
  "binary_places a =
     (if a \<le> 0 \<or> 2 ^ 52 * usec_per_sec \<le> a then 0 else Suc (binary_places (2 * a)))"
  by pat_completeness auto
termination
  by (relation "measure (\<lambda>a. nat (2 ^ 52 * usec_per_sec - a))") auto

declare binary_places.simps [simp del]

definition total_seconds :: "int \<Rightarrow> float" where
  \<comment> \<open>\<open>d.total_seconds()\<close> for a \<open>timedelta\<close> of \<open>d\<close> microseconds\<close>
  "total_seconds d =
     (let a = \<bar>d\<bar>;
          k = binary_places a;
          n = (a * 2 ^ k) div usec_per_sec;
          r = (a * 2 ^ k) mod usec_per_sec;
          m = (if usec_per_sec < 2 * r \<or> (2 * r = usec_per_sec \<and> odd n) then n + 1 else n)
      in (if d < 0 then - m else m, k))"

definition int_float :: "float \<Rightarrow> int" where
  \<comment> \<open>\<open>int(x)\<close> for a float \<open>x\<close>: the fraction is dropped\<close>
  "int_float x = (case x of (m, k) \<Rightarrow> trunc_div m (2 ^ k))"

subsection \<open>\<open>str(n)\<close> and \<open>int(s)\<close>\<close>

definition digit_char :: "int \<Rightarrow> char" where
  "digit_char d = ''0123456789'' ! nat d"

function str_digits :: "int \<Rightarrow> string" where
  \<comment> \<open>the decimal digits of a number that is not negative\<close>
  "str_digits n =
     (if n < 10 then [digit_char n] else str_digits (n div 10) @ [digit_char (n mod 10)])"
  by pat_completeness auto
termination
  by (relation "measure nat") auto

declare str_digits.simps [simp del]

definition str_int :: "int \<Rightarrow> string" where
  \<comment> \<open>\<open>str(i)\<close>: decimal digits, \<open>-\<close> in front of a negative number.\<close>
  "str_int i = (if i < 0 then CHR ''-'' # str_digits (- i) else str_digits i)"

definition is_digit :: "char \<Rightarrow> bool" where
  "is_digit c = (c \<in> set ''0123456789'')"

definition digit_val :: "char \<Rightarrow> int" where
  "digit_val c = (of_char c :: int) - 48"

definition is_space :: "char \<Rightarrow> bool" where
  \<comment> \<open>the ASCII characters for which \<open>str.isspace()\<close> holds\<close>
  "is_space c = ((of_char c :: int) \<in> {9, 10, 11, 12, 13, 28, 29, 30, 31, 32})"

definition strip :: "string \<Rightarrow> string" where
  "strip s = rev (dropWhile is_space (rev (dropWhile is_space s)))"

fun digits_val :: "int \<Rightarrow> string \<Rightarrow> int option" where
  \<comment> \<open>the value of a run of digits, \<open>acc\<close> the value read so far; a single \<open>_\<close> may
      stand between two digits\<close>
  "digits_val acc [] = Some acc"
| "digits_val acc (c # cs) =
     (if is_digit c then digits_val (10 * acc + digit_val c) cs
      else if c = CHR ''_'' \<and> cs \<noteq> [] \<and> is_digit (hd cs) then digits_val acc cs
      else None)"

definition unsigned_val :: "string \<Rightarrow> int option" where
  "unsigned_val s = (case s of [] \<Rightarrow> None | c # cs \<Rightarrow> if is_digit c then digits_val 0 s else None)"

definition py_int :: "string \<Rightarrow> int option" where
  \<comment> \<open>\<open>int(s)\<close> in base 10 on ASCII text; \<open>None\<close> is \<open>ValueError\<close>.\<close>
  "py_int s =
     (case strip s of
        [] \<Rightarrow> None
      | c # cs \<Rightarrow>
          if c = CHR ''-'' then map_option uminus (unsigned_val cs)
          else if c = CHR ''+'' then unsigned_val cs
          else unsigned_val (c # cs))"

subsection \<open>\<open>str.startswith\<close> and \<open>str.replace\<close>\<close>

definition startswith :: "string \<Rightarrow> string \<Rightarrow> bool" where
  "startswith s p = (take (length p) s = p)"

function replace :: "string \<Rightarrow> string \<Rightarrow> string \<Rightarrow> string" where
  \<comment> \<open>\<open>s.replace(old, new)\<close>: the occurrences of \<open>old\<close> found scanning from the left,
      none overlapping an earlier one, are each replaced by \<open>new\<close>.\<close>
  "replace old new s =
     (if old = [] then new @ concat (map (\<lambda>c. c # new) s)
      else if s = [] then []
      else if startswith s old then new @ replace old new (drop (length old) s)
      else hd s # replace old new (tl s))"
  by pat_completeness auto
termination
  by (relation "measure (\<lambda>(old, new, s). length s)") auto

declare replace.simps [simp del]

fun contains :: "string \<Rightarrow> string \<Rightarrow> bool" where
  \<comment> \<open>\<open>sub in s\<close>\<close>
  "contains [] sub = (sub = [])"
| "contains (c # cs) sub = (startswith (c # cs) sub \<or> contains cs sub)"

section \<open>Configuration (\<open>src/config.py\<close>)\<close>

record limits =
  input_tpm :: int
  output_tpm :: int
  rpm :: int

definition SLIDING_WINDOW_SIZE_SECONDS :: int where
  "SLIDING_WINDOW_SIZE_SECONDS = 60"

definition WINDOW_SEGMENTS :: int where
  "WINDOW_SEGMENTS = 12"

definition DEFAULT_RATE_LIMITS :: limits where
  "DEFAULT_RATE_LIMITS = \<lparr>input_tpm = 100000, output_tpm = 100000, rpm = 100\<rparr>"

definition API_KEY_LIMITS :: "(string \<times> limits) list" where
  "API_KEY_LIMITS =
     [(''test-key-1'', \<lparr>input_tpm = 1000, output_tpm = 1000, rpm = 10000\<rparr>),
      (''test-key-2'', \<lparr>input_tpm = 10000, output_tpm = 10000, rpm = 2000\<rparr>),
      (''test-key-3'', \<lparr>input_tpm = 10000, output_tpm = 10000, rpm = 5000\<rparr>)]"

definition get_api_key_limits :: "string \<Rightarrow> limits" where
  \<comment> \<open>\<open>cls.API_KEY_LIMITS.get(api_key, cls.DEFAULT_RATE_LIMITS)\<close>\<close>
  "get_api_key_limits api_key =
     (case map_of API_KEY_LIMITS api_key of Some l \<Rightarrow> l | None \<Rightarrow> DEFAULT_RATE_LIMITS)"

section \<open>Data models (\<open>src/models.py\<close>)\<close>

text \<open>
  Of \<open>ChatCompletionRequest\<close> the server reads \<open>model\<close>, \<open>messages\<close> and
  \<open>max_tokens\<close>; its other optional fields (sampling parameters) are never read and are
  left out of the record.
\<close>

record ChatMessage =
  role :: string
  content :: string
  name :: "string option"

record ChatCompletionRequest =
  model :: string
  messages :: "ChatMessage list"
  max_tokens :: "int option"

record Usage =
  prompt_tokens :: int
  completion_tokens :: int
  total_tokens :: int

record Choice =
  index :: int
  message :: ChatMessage
  finish_reason :: string

record ChatCompletionResponse =
  response_id :: string
  object :: string
  created :: int
  response_model :: string
  choices :: "Choice list"
  usage :: Usage
  system_fingerprint :: "string option"

record RateLimitInfo =
  api_key :: string
  input_tpm_used :: int
  output_tpm_used :: int
  rpm_used :: int
  input_tpm_limit :: int
  output_tpm_limit :: int
  rpm_limit :: int
  window_start :: datetime
  window_end :: datetime

section \<open>The shared counter store\<close>

text \<open>
  Redis is an external service. The five commands the limiter issues are modelled by
  their documented effect on hashes of integer fields: a missing field reads as absent,
  \<open>HINCRBY\<close> creates key and field on demand, a hash emptied by \<open>HDEL\<close> is removed,
  and a key with a time to live is gone once the clock has passed its deadline. Counters
  and increments are signed 64-bit integers in the store: \<open>HINCRBY\<close> is answered with an
  error, and changes nothing, when its increment or the raised counter would leave that
  range.
\<close>

type_synonym hash = "(string \<times> int) list"

record redis =
  hashes :: "string \<Rightarrow> hash option"
  expiry :: "string \<Rightarrow> usec option"

definition empty_redis :: redis where
  "empty_redis = \<lparr>hashes = (\<lambda>_. None), expiry = (\<lambda>_. None)\<rparr>"

definition live :: "redis \<Rightarrow> usec \<Rightarrow> string \<Rightarrow> hash option" where
  \<comment> \<open>the hash under \<open>key\<close> as seen at \<open>now\<close>\<close>
  "live r now key =
     (case expiry r key of
        Some deadline \<Rightarrow> if deadline < now then None else hashes r key
      | None \<Rightarrow> hashes r key)"

definition int64 :: "int \<Rightarrow> bool" where
  "int64 v = (- (2 ^ 63) \<le> v \<and> v < 2 ^ 63)"

definition HINCRBY :: "string \<Rightarrow> string \<Rightarrow> int \<Rightarrow> usec \<Rightarrow> redis \<Rightarrow> bool \<times> redis" where
  \<comment> \<open>the first component tells whether the reply is an error\<close>
  "HINCRBY key field v now r =
     (let old = (case live r now key of
                   None \<Rightarrow> 0
                 | Some h \<Rightarrow> (case map_of h field of None \<Rightarrow> 0 | Some n \<Rightarrow> n))
      in if \<not> int64 v \<or> \<not> int64 (old + v) then (True, r)
         else
           (False,
            case live r now key of
              None \<Rightarrow>
                r\<lparr>hashes := (hashes r)(key \<mapsto> [(field, v)]), expiry := (expiry r)(key := None)\<rparr>
            | Some h \<Rightarrow> r\<lparr>hashes := (hashes r)(key \<mapsto> AList.update field (old + v) h)\<rparr>))"

definition EXPIRE :: "string \<Rightarrow> int \<Rightarrow> usec \<Rightarrow> redis \<Rightarrow> redis" where
  "EXPIRE key seconds now r =
     (case live r now key of
        None \<Rightarrow> r
      | Some h \<Rightarrow> r\<lparr>expiry := (expiry r)(key \<mapsto> now + seconds * usec_per_sec)\<rparr>)"

definition HMGET :: "string \<Rightarrow> string list \<Rightarrow> usec \<Rightarrow> redis \<Rightarrow> int option list" where
  "HMGET key flds now r =
     map (\<lambda>field. case live r now key of None \<Rightarrow> None | Some h \<Rightarrow> map_of h field) flds"

definition HKEYS :: "string \<Rightarrow> usec \<Rightarrow> redis \<Rightarrow> string list" where
  "HKEYS key now r = (case live r now key of None \<Rightarrow> [] | Some h \<Rightarrow> map fst h)"

definition HDEL :: "string \<Rightarrow> string list \<Rightarrow> usec \<Rightarrow> redis \<Rightarrow> redis" where
  "HDEL key flds now r =
     (case live r now key of
        None \<Rightarrow> r
      | Some h \<Rightarrow>
          (let h' = filter (\<lambda>(field, v). field \<notin> set flds) h
           in if h' = []
              then r\<lparr>hashes := (hashes r)(key := None), expiry := (expiry r)(key := None)\<rparr>
              else r\<lparr>hashes := (hashes r)(key \<mapsto> h')\<rparr>))"

text \<open>
  The world a request handler runs in: the store, the outcome of the coming round trips
  to the store (\<open>True\<close>: the round trip fails with a connection error; past the end of
  the list every round trip succeeds) and the background tasks created with
  \<open>asyncio.create_task\<close> that have not run yet, each named by the key it cleans.
  \<open>RedisError\<close> is the exception of a failed round trip, \<open>ResponseError\<close> the one the
  client raises for a command the store answered with an error.
\<close>

datatype exn = RedisError | ResponseError

record world =
  db :: redis
  faults :: "bool list"
  tasks :: "string list"

definition round_trip :: "world \<Rightarrow> bool \<times> world" where
  "round_trip w = (case faults w of [] \<Rightarrow> (False, w) | f # fs \<Rightarrow> (f, w\<lparr>faults := fs\<rparr>))"

definition faulty :: "nat \<Rightarrow> world \<Rightarrow> bool" where
  \<comment> \<open>the \<open>n\<close>-th coming round trip fails (counting from 0)\<close>
  "faulty n w = (n < length (faults w) \<and> faults w ! n)"

section \<open>The rate limiter (\<open>src/rate_limiter.py\<close>)\<close>

definition window_size :: int where
  "window_size = SLIDING_WINDOW_SIZE_SECONDS"

definition segments :: int where
  "segments = WINDOW_SEGMENTS"

definition segment_size :: int where
  "segment_size = window_size div segments"

definition get_current_segment :: "usec \<Rightarrow> int" where
  "get_current_segment now = (let current_time = int_time now in current_time div segment_size)"

definition get_window_segments :: "usec \<Rightarrow> int \<times> int" where
  "get_window_segments now =
     (let current_segment = get_current_segment now;
          start_segment = current_segment - segments + 1
      in (start_segment, current_segment))"

record redis_keys =
  rpm_key :: string
  input_tpm_key :: string
  output_tpm_key :: string

definition get_redis_keys :: "string \<Rightarrow> redis_keys" where
  "get_redis_keys k =
     \<lparr>rpm_key = ''rate_limit:rpm:'' @ k,
      input_tpm_key = ''rate_limit:input_tpm:'' @ k,
      output_tpm_key = ''rate_limit:output_tpm:'' @ k\<rparr>"

definition window_total :: "string \<Rightarrow> usec \<Rightarrow> redis \<Rightarrow> int" where
  \<comment> \<open>what \<open>_get_window_sum\<close> computes from the store when its round trip succeeds\<close>
  "window_total key now r =
     (let (start_segment, end_segment) = get_window_segments now;
          segments_to_check = map str_int [start_segment..end_segment];
          values = HMGET key segments_to_check now r
      in sum_list (map (\<lambda>v. case v of None \<Rightarrow> 0 | Some n \<Rightarrow> n) values))"

definition get_window_sum :: "string \<Rightarrow> usec \<Rightarrow> world \<Rightarrow> (exn + int) \<times> world" where
  "get_window_sum key now w =
     (case round_trip w of
        (True, w') \<Rightarrow> (Inl RedisError, w')
      | (False, w') \<Rightarrow> (Inr (window_total key now (db w')), w'))"

definition clean_old_segments :: "string \<Rightarrow> usec \<Rightarrow> usec \<Rightarrow> world \<Rightarrow> (exn + unit) \<times> world" where
  \<comment> \<open>\<open>now\<close>: the clock when the task starts and reads the fields; \<open>t_del\<close>: when its
      \<open>HDEL\<close> reaches the store.\<close>
  "clean_old_segments key now t_del w =
     (let start_segment = fst (get_window_segments now) in
      case round_trip w of
        (True, w1) \<Rightarrow> (Inl RedisError, w1)
      | (False, w1) \<Rightarrow>
          (let all_fields = HKEYS key now (db w1) in
           if all_fields = [] then (Inr (), w1)
           else
             (let fields_to_delete =
                    filter (\<lambda>field. case py_int field of
                                       Some segment \<Rightarrow> segment < start_segment
                                     | None \<Rightarrow> False) all_fields
              in if fields_to_delete = [] then (Inr (), w1)
                 else
                   (case round_trip w1 of
                      (True, w2) \<Rightarrow> (Inl RedisError, w2)
                    | (False, w2) \<Rightarrow>
                        (Inr (), w2\<lparr>db := HDEL key fields_to_delete t_del (db w2)\<rparr>)))))"

definition count_tokens :: "(string \<Rightarrow> nat list) \<Rightarrow> string \<Rightarrow> int" where
  \<comment> \<open>\<open>len(self.encoding.encode(text))\<close>; the tokenizer \<open>encoding\<close> is external.\<close>
  "count_tokens encoding text = int (length (encoding text))"

definition estimate_request_tokens :: "(string \<Rightarrow> nat list) \<Rightarrow> 'a ChatCompletionRequest_scheme \<Rightarrow> int" where
  "estimate_request_tokens encoding request =
     fold (\<lambda>message total_tokens.
             total_tokens + count_tokens encoding (role message)
               + count_tokens encoding (content message) + 4)
          (messages request) 0
     + 2"

definition output_reservation :: "'a ChatCompletionRequest_scheme \<Rightarrow> int" where
  \<comment> \<open>line 126: \<open>request.max_tokens if request.max_tokens else 1000\<close>; the condition is
      Python truthiness, false for \<open>None\<close> and for \<open>0\<close>.\<close>
  "output_reservation request =
     (if (case max_tokens request of None \<Rightarrow> False | Some m \<Rightarrow> m \<noteq> 0)
      then the (max_tokens request) else 1000)"

record check_clock =
  t_rpm :: usec
  t_input_tpm :: usec
  t_output_tpm :: usec
  t_window :: usec
  local_offset :: "int \<Rightarrow> int"

definition check_rate_limit ::
  "(string \<Rightarrow> nat list) \<Rightarrow> string \<Rightarrow> 'a ChatCompletionRequest_scheme \<Rightarrow> 'b check_clock_scheme \<Rightarrow> world
     \<Rightarrow> (exn + bool \<times> RateLimitInfo) \<times> world" where
  \<comment> \<open>The record \<open>clk\<close> holds the four readings of the clock the call makes, one in each
      \<open>_get_window_sum\<close> and one for the window of the snapshot, and the UTC offset of
      the host's local time at each timestamp, which \<open>datetime.fromtimestamp\<close> applies.\<close>
  "check_rate_limit encoding k request clk w =
     (let lim = get_api_key_limits k;
          keys = get_redis_keys k;
          input_tokens = estimate_request_tokens encoding request;
          output_tokens = output_reservation request
      in
      case get_window_sum (rpm_key keys) (t_rpm clk) w of
        (Inl e, w1) \<Rightarrow> (Inl e, w1)
      | (Inr current_rpm, w1) \<Rightarrow>
      (case get_window_sum (input_tpm_key keys) (t_input_tpm clk) w1 of
        (Inl e, w2) \<Rightarrow> (Inl e, w2)
      | (Inr current_input_tpm, w2) \<Rightarrow>
      (case get_window_sum (output_tpm_key keys) (t_output_tpm clk) w2 of
        (Inl e, w3) \<Rightarrow> (Inl e, w3)
      | (Inr current_output_tpm, w3) \<Rightarrow>
          (let (window_start, window_end) = get_window_segments (t_window clk);
               rate_limit_info =
                 \<lparr>api_key = k,
                  input_tpm_used = current_input_tpm,
                  output_tpm_used = current_output_tpm,
                  rpm_used = current_rpm,
                  input_tpm_limit = input_tpm lim,
                  output_tpm_limit = output_tpm lim,
                  rpm_limit = rpm lim,
                  window_start = fromtimestamp (local_offset clk) (window_start * segment_size),
                  window_end =
                    fromtimestamp (local_offset clk) ((window_end + 1) * segment_size)\<rparr>
           in if current_rpm + 1 > rpm lim then (Inr (False, rate_limit_info), w3)
              else if current_input_tpm + input_tokens > input_tpm lim
                then (Inr (False, rate_limit_info), w3)
              else if current_output_tpm + output_tokens > output_tpm lim
                then (Inr (False, rate_limit_info), w3)
              else (Inr (True, rate_limit_info), w3)))))"

definition record_usage :: "string \<Rightarrow> int \<Rightarrow> int \<Rightarrow> usec \<Rightarrow> world \<Rightarrow> (exn + unit) \<times> world" where
  \<comment> \<open>One pipeline, so one round trip; when it fails nothing is written. The store
      executes the six commands in order, one answered with an error not stopping the
      next, and \<open>pipe.execute()\<close> raises \<open>ResponseError\<close> when a reply is an error. In
      both cases the lines that create the cleaning tasks are not reached.\<close>
  "record_usage k input_tokens output_tokens now w =
     (let current_segment = get_current_segment now;
          keys = get_redis_keys k;
          expire_time = window_size * 2
      in
      case round_trip w of
        (True, w') \<Rightarrow> (Inl RedisError, w')
      | (False, w') \<Rightarrow>
          (let (e1, r1) = HINCRBY (rpm_key keys) (str_int current_segment) 1 now (db w');
               (e2, r2) = HINCRBY (input_tpm_key keys) (str_int current_segment) input_tokens now r1;
               (e3, r3) = HINCRBY (output_tpm_key keys) (str_int current_segment) output_tokens now r2;
               r4 = EXPIRE (rpm_key keys) expire_time now r3;
               r5 = EXPIRE (input_tpm_key keys) expire_time now r4;
               r6 = EXPIRE (output_tpm_key keys) expire_time now r5
           in if e1 \<or> e2 \<or> e3 then (Inl ResponseError, w'\<lparr>db := r6\<rparr>)
              else (Inr (),
                    w'\<lparr>db := r6,
                       tasks := tasks w' @ [rpm_key keys, input_tpm_key keys, output_tpm_key keys]\<rparr>)))"

definition get_rate_limit_headers ::
  "(datetime \<Rightarrow> string) \<Rightarrow> string \<Rightarrow> RateLimitInfo \<Rightarrow> datetime \<Rightarrow> (string \<times> string) list" where
  \<comment> \<open>\<open>isoformat\<close> renders a datetime (external); \<open>now\<close> is the naive local datetime
      that \<open>datetime.now()\<close> returns.\<close>
  "get_rate_limit_headers isoformat k rate_limit_info now =
     (let reset_time = window_end rate_limit_info in
      [(''X-RateLimit-Limit-Requests'', str_int (rpm_limit rate_limit_info)),
       (''X-RateLimit-Limit-Tokens-Input'', str_int (input_tpm_limit rate_limit_info)),
       (''X-RateLimit-Limit-Tokens-Output'', str_int (output_tpm_limit rate_limit_info)),
       (''X-RateLimit-Remaining-Requests'',
          str_int (max 0 (rpm_limit rate_limit_info - rpm_used rate_limit_info))),
       (''X-RateLimit-Remaining-Tokens-Input'',
          str_int (max 0 (input_tpm_limit rate_limit_info - input_tpm_used rate_limit_info))),
       (''X-RateLimit-Remaining-Tokens-Output'',
          str_int (max 0 (output_tpm_limit rate_limit_info - output_tpm_used rate_limit_info))),
       (''X-RateLimit-Reset-Requests'', isoformat reset_time),
       (''X-RateLimit-Reset-Tokens'', isoformat reset_time),
       (''Retry-After'', str_int (int_float (total_seconds (reset_time - now))))])"

section \<open>The HTTP handler (\<open>src/server.py\<close>)\<close>

datatype content =
    Error_detail string string
  | Rate_limit_error string string "string option" string
  | Completion ChatCompletionResponse

datatype outcome =
    JSONResponse int "(string \<times> string) list" content
  | HTTPException int content
  | Raised exn

text \<open>
  A request's readings of the clock and its random draws: those of \<open>check_rate_limit\<close>,
  the naive local datetime \<open>datetime.now()\<close> returns in \<open>get_rate_limit_headers\<close>, the
  template \<open>random.choice\<close> picks, the hexadecimal form of the fresh UUID, the clock when
  the response object is created (after the mock delay), and the clock in
  \<open>record_usage\<close>.
\<close>

record request_clock = check_clock +
  t_headers :: datetime
  pick :: nat
  uuid_hex :: string
  t_created :: usec
  t_record :: usec

definition templates :: "'a ChatCompletionRequest_scheme \<Rightarrow> string list" where
  "templates request =
     [''This is a mock response. Your request has been successfully processed.'',
      ''I understand your request. This is a system-generated test response.'',
      ''Processing complete. This is a mock response from the Rate Limiter system.'',
      ''Message received. Currently using model: '' @ model request @ ''.'',
      ''This is an auto-generated response for testing rate limiting functionality.'']"

definition generate_mock_content :: "'a ChatCompletionRequest_scheme \<Rightarrow> nat \<Rightarrow> string" where
  \<comment> \<open>\<open>n\<close> is the position \<open>random.choice\<close> draws\<close>
  "generate_mock_content request n =
     (let base_content = templates request ! (n mod length (templates request)) in
      case max_tokens request of
        None \<Rightarrow> base_content
      | Some m \<Rightarrow>
          if m \<noteq> 0 \<and> m > 50
          then base_content
                 @ concat (replicate (nat (m div 20))
                             '' This is additional content to fill the response.'')
          else base_content)"

definition generate_mock_response ::
  "(string \<Rightarrow> nat list) \<Rightarrow> 'a ChatCompletionRequest_scheme \<Rightarrow> 'b request_clock_scheme
     \<Rightarrow> ChatCompletionResponse" where
  "generate_mock_response encoding request clk =
     (let prompt_tokens = estimate_request_tokens encoding request;
          mock_content = generate_mock_content request (pick clk);
          completion_tokens = count_tokens encoding mock_content
      in \<lparr>response_id = ''chatcmpl-'' @ take 8 (uuid_hex clk),
          object = ''chat.completion'',
          created = int_time (t_created clk),
          response_model = model request,
          choices =
            [\<lparr>index = 0,
              message = \<lparr>role = ''assistant'', content = mock_content, name = None\<rparr>,
              finish_reason = ''stop''\<rparr>],
          usage =
            \<lparr>prompt_tokens = prompt_tokens,
             completion_tokens = completion_tokens,
             total_tokens = prompt_tokens + completion_tokens\<rparr>,
          system_fingerprint = Some ''fp_mock''\<rparr>)"

definition extract_api_key :: "string option \<Rightarrow> outcome + string" where
  \<comment> \<open>lines 84--97 of \<open>chat_completions\<close>: the credential check; \<open>Inr k\<close> is the
      \<open>api_key\<close> the rest of the handler works with.\<close>
  "extract_api_key authorization =
     (case authorization of
        None \<Rightarrow>
          Inl (HTTPException 401
                 (Error_detail ''Invalid authorization header'' ''invalid_request_error''))
      | Some a \<Rightarrow>
          if a = [] \<or> \<not> startswith a ''Bearer ''
          then Inl (HTTPException 401
                      (Error_detail ''Invalid authorization header'' ''invalid_request_error''))
          else
            (let k = replace ''Bearer '' [] a in
             if map_of API_KEY_LIMITS k = None
             then Inl (HTTPException 401
                         (Error_detail ''Invalid API key'' ''invalid_request_error''))
             else Inr k))"

definition chat_completions ::
  "(string \<Rightarrow> nat list) \<Rightarrow> (datetime \<Rightarrow> string) \<Rightarrow> 'a ChatCompletionRequest_scheme \<Rightarrow> string option
     \<Rightarrow> 'b request_clock_scheme \<Rightarrow> world \<Rightarrow> outcome \<times> world" where
  \<comment> \<open>\<open>Raised\<close>: an exception that leaves the handler uncaught.\<close>
  "chat_completions encoding isoformat request authorization clk w =
     (case extract_api_key authorization of
        Inl unauthorized \<Rightarrow> (unauthorized, w)
      | Inr k \<Rightarrow>
          (case check_rate_limit encoding k request clk w of
             (Inl e, w1) \<Rightarrow> (Raised e, w1)
           | (Inr (allowed, rate_limit_info), w1) \<Rightarrow>
               (let headers =
                      get_rate_limit_headers isoformat k rate_limit_info (t_headers clk)
                in
                if \<not> allowed
                then (JSONResponse 429 headers
                        (Rate_limit_error ''Rate limit exceeded'' ''rate_limit_exceeded''
                           None ''rate_limit_exceeded''), w1)
                else
                  (let mock_response = generate_mock_response encoding request clk in
                   case record_usage k
                          (prompt_tokens (usage mock_response))
                          (completion_tokens (usage mock_response))
                          (t_record clk) w1 of
                     (Inl e, w2) \<Rightarrow> (Raised e, w2)
                   | (Inr u, w2) \<Rightarrow>
                       (JSONResponse 200 headers (Completion mock_response), w2)))))"

section \<open>Sequential runs\<close>

text \<open>
  Requests served one after the other on one event loop: each \<open>Request\<close> runs the
  handler to its end, and between two requests any pending cleaning task may run
  (\<open>Clean i now t_del\<close> runs the \<open>i\<close>-th pending one). A cleaning task only deletes
  fields older than the window it computed when it started, which no later read looks
  at (lemma \<open>window_total_HDEL\<close> below), so letting it run between requests rather than
  inside one loses nothing.
\<close>

datatype event =
    Request "string option" ChatCompletionRequest request_clock
  | Clean nat usec usec

fun event_times :: "event \<Rightarrow> usec list" where
  \<comment> \<open>the readings of the clock an event makes, in the order it makes them\<close>
  "event_times (Request authorization request clk) =
     [t_rpm clk, t_input_tpm clk, t_output_tpm clk, t_window clk, t_created clk, t_record clk]"
| "event_times (Clean i now t_del) = [now, t_del]"

definition trace_times :: "event list \<Rightarrow> usec list" where
  "trace_times evs = concat (map event_times evs)"

fun run_event :: "(string \<Rightarrow> nat list) \<Rightarrow> (datetime \<Rightarrow> string) \<Rightarrow> event \<Rightarrow> world \<Rightarrow> world" where
  "run_event encoding isoformat (Request authorization request clk) w =
     snd (chat_completions encoding isoformat request authorization clk w)"
| "run_event encoding isoformat (Clean i now t_del) w =
     (if i < length (tasks w)
      then snd (clean_old_segments (tasks w ! i) now t_del
                  (w\<lparr>tasks := take i (tasks w) @ drop (Suc i) (tasks w)\<rparr>))
      else w)"

definition run :: "(string \<Rightarrow> nat list) \<Rightarrow> (datetime \<Rightarrow> string) \<Rightarrow> event list \<Rightarrow> world \<Rightarrow> world" where
  "run encoding isoformat evs w = fold (run_event encoding isoformat) evs w"

definition fresh_world :: "bool list \<Rightarrow> world" where
  \<comment> \<open>an empty store, no pending task\<close>
  "fresh_world fs = \<lparr>db = empty_redis, faults = fs, tasks = []\<rparr>"

section \<open>Notions used in the statements\<close>

definition snapshot :: "string \<Rightarrow> 'b check_clock_scheme \<Rightarrow> redis \<Rightarrow> RateLimitInfo" where
  \<comment> \<open>the \<open>RateLimitInfo\<close> that \<open>check_rate_limit\<close> builds when its three reads of the
      store \<open>r\<close> succeed\<close>
  "snapshot k clk r =
     \<lparr>api_key = k,
      input_tpm_used = window_total (input_tpm_key (get_redis_keys k)) (t_input_tpm clk) r,
      output_tpm_used = window_total (output_tpm_key (get_redis_keys k)) (t_output_tpm clk) r,
      rpm_used = window_total (rpm_key (get_redis_keys k)) (t_rpm clk) r,
      input_tpm_limit = input_tpm (get_api_key_limits k),
      output_tpm_limit = output_tpm (get_api_key_limits k),
      rpm_limit = rpm (get_api_key_limits k),
      window_start =
        fromtimestamp (local_offset clk) (fst (get_window_segments (t_window clk)) * segment_size),
      window_end =
        fromtimestamp (local_offset clk)
          ((snd (get_window_segments (t_window clk)) + 1) * segment_size)\<rparr>"

definition after_trips :: "nat \<Rightarrow> world \<Rightarrow> world" where
  \<comment> \<open>the world once \<open>n\<close> round trips have been made without a write\<close>
  "after_trips n w = w\<lparr>faults := drop n (faults w)\<rparr>"

definition field_val :: "hash \<Rightarrow> int \<Rightarrow> int" where
  \<comment> \<open>the counter of segment \<open>i\<close> in a hash, 0 when the field is missing\<close>
  "field_val h i = (case map_of h (str_int i) of None \<Rightarrow> 0 | Some n \<Rightarrow> n)"

definition hash_window :: "hash option \<Rightarrow> usec \<Rightarrow> int" where
  \<comment> \<open>the sum over the window of \<open>now\<close> of the counters of a hash (\<open>None\<close>: no such key)\<close>
  "hash_window ho now =
     (case ho of
        None \<Rightarrow> 0
      | Some h \<Rightarrow>
          (\<Sum>i = get_current_segment now - segments + 1..get_current_segment now. field_val h i))"

definition char_encoding :: "string \<Rightarrow> nat list" where
  \<comment> \<open>a stand-in tokenizer for concrete runs: one token for each character\<close>
  "char_encoding s = map of_char s"

definition plain_isoformat :: "datetime \<Rightarrow> string" where
  \<comment> \<open>a stand-in for \<open>datetime.isoformat\<close> in concrete runs\<close>
  "plain_isoformat t = str_int t"

definition sample_request :: "int option \<Rightarrow> ChatCompletionRequest" where
  \<comment> \<open>a request with one short message and the given \<open>max_tokens\<close>\<close>
  "sample_request mt =
     \<lparr>model = ''m'', messages = [\<lparr>role = ''user'', content = ''Hi'', name = None\<rparr>],
      max_tokens = mt\<rparr>"

definition sample_clock :: "usec \<Rightarrow> request_clock" where
  \<comment> \<open>a request all of whose clock readings are \<open>t\<close>, on a host whose local time is UTC\<close>
  "sample_clock t =
     \<lparr>t_rpm = t, t_input_tpm = t, t_output_tpm = t, t_window = t, local_offset = (\<lambda>s. 0),
      t_headers = t, pick = 0, uuid_hex = ''0123456789abcdef0123456789abcdef'',
      t_created = t, t_record = t\<rparr>"

definition sample_trace :: "event list" where
  \<comment> \<open>Four events within one segment: a request of \<open>test-key-1\<close> that is served; a
      cleaning task; a request without credentials whose \<open>max_tokens = 1\<close> is less than
      any completion; a second request of \<open>test-key-1\<close>, rejected because the output
      tokens used and the 1000 it reserves exceed the limit.\<close>
  "sample_trace =
     [Request (Some ''Bearer test-key-1'') (sample_request None) (sample_clock 1700000000000000),
      Clean 0 1700000001000000 1700000001000000,
      Request None (sample_request (Some 1)) (sample_clock 1700000002000000),
      Request (Some ''Bearer test-key-1'') (sample_request None) (sample_clock 1700000002000000)]"

definition new_york :: "int \<Rightarrow> int" where
  \<comment> \<open>the UTC offset of local time on a host in the time zone \<open>America/New_York\<close>,
      around 2024-03-10 07:00:00 UTC, when daylight saving time began there\<close>
  "new_york s = (if s < 1710054000 then - 18000 else - 14400)"

definition recorded :: "string \<Rightarrow> int \<Rightarrow> int \<Rightarrow> usec \<Rightarrow> redis \<Rightarrow> redis" where
  \<comment> \<open>the store after the pipeline of \<open>record_usage\<close> has been executed\<close>
  "recorded k input_tokens output_tokens now r =
     (let current_segment = get_current_segment now;
          keys = get_redis_keys k;
          expire_time = window_size * 2
      in EXPIRE (output_tpm_key keys) expire_time now
           (EXPIRE (input_tpm_key keys) expire_time now
           (EXPIRE (rpm_key keys) expire_time now
           (snd (HINCRBY (output_tpm_key keys) (str_int current_segment) output_tokens now
           (snd (HINCRBY (input_tpm_key keys) (str_int current_segment) input_tokens now
           (snd (HINCRBY (rpm_key keys) (str_int current_segment) 1 now r)))))))))"

definition retry_after_as_specified :: "RateLimitInfo \<Rightarrow> datetime \<Rightarrow> int" where
  \<comment> \<open>Written from the specification, not from the code: \<open>ceil(window_end - now)\<close> in
      seconds, at least 0.\<close>
  "retry_after_as_specified info now =
     max 0 (- ((now - window_end info) div usec_per_sec))"

definition stored :: "redis \<Rightarrow> usec \<Rightarrow> string \<Rightarrow> hash" where
  \<comment> \<open>the fields under \<open>key\<close> at \<open>now\<close>, none when there is no such key\<close>
  "stored r now key = (case live r now key of None \<Rightarrow> [] | Some h \<Rightarrow> h)"

definition counter :: "redis \<Rightarrow> usec \<Rightarrow> string \<Rightarrow> int" where
  \<comment> \<open>the counter of the current segment under \<open>key\<close>, as seen at \<open>now\<close>\<close>
  "counter r now key = field_val (stored r now key) (get_current_segment now)"

definition fits :: "string \<Rightarrow> int \<Rightarrow> usec \<Rightarrow> redis \<Rightarrow> bool" where
  \<comment> \<open>raising the current segment's counter under \<open>key\<close> by \<open>d\<close> keeps the increment
      and the counter within the signed 64-bit range of the store\<close>
  "fits key d now r = (int64 d \<and> int64 (counter r now key + d))"

definition sane :: "redis \<Rightarrow> usec \<Rightarrow> bool" where
  \<comment> \<open>at \<open>now\<close> no segment counter is negative and no segment after the current one
      has been counted in\<close>
  "sane r now =
     (\<forall>key i. 0 \<le> field_val (stored r now key) i
        \<and> (get_current_segment now < i \<longrightarrow> field_val (stored r now key) i = 0))"

definition under_limits :: "redis \<Rightarrow> usec \<Rightarrow> bool" where
  \<comment> \<open>requests and input tokens in the window of \<open>now\<close> are within every key's limits\<close>
  "under_limits r now =
     (\<forall>k. window_total (rpm_key (get_redis_keys k)) now r \<le> rpm (get_api_key_limits k)
        \<and> window_total (input_tpm_key (get_redis_keys k)) now r
            \<le> input_tpm (get_api_key_limits k))"

definition output_under_limit :: "redis \<Rightarrow> usec \<Rightarrow> bool" where
  "output_under_limit r now =
     (\<forall>k. window_total (output_tpm_key (get_redis_keys k)) now r
            \<le> output_tpm (get_api_key_limits k))"

fun modest :: "(string \<Rightarrow> nat list) \<Rightarrow> event \<Rightarrow> bool" where
  \<comment> \<open>the completion the mock responder produces for the request is no longer, in
      tokens, than the output reserved for it at admission\<close>
  "modest encoding (Request authorization request clk) =
     (count_tokens encoding (generate_mock_content request (pick clk))
        \<le> output_reservation request)"
| "modest encoding (Clean i now t_del) = True"

fun served :: "(string \<Rightarrow> nat list) \<Rightarrow> (datetime \<Rightarrow> string) \<Rightarrow> event \<Rightarrow> world \<Rightarrow> bool" where
  \<comment> \<open>run on the world \<open>w\<close>, the event is a request that is answered with status 200:
      it is admitted and its usage is recorded\<close>
  "served encoding isoformat (Request authorization request clk) w =
     (case fst (chat_completions encoding isoformat request authorization clk w) of
        JSONResponse status hs body \<Rightarrow> status = 200
      | HTTPException status body \<Rightarrow> False
      | Raised e \<Rightarrow> False)"
| "served encoding isoformat (Clean i now t_del) w = False"

fun reservations_kept ::
  "(string \<Rightarrow> nat list) \<Rightarrow> (datetime \<Rightarrow> string) \<Rightarrow> event list \<Rightarrow> world \<Rightarrow> bool" where
  \<comment> \<open>in the run of the events from the world \<open>w\<close>, the completion of every request
      that is served is no longer than the output reserved for that request\<close>
  "reservations_kept encoding isoformat [] w = True"
| "reservations_kept encoding isoformat (ev # evs) w =
     ((served encoding isoformat ev w \<longrightarrow> modest encoding ev)
      \<and> reservations_kept encoding isoformat evs (run_event encoding isoformat ev w))"

fun is_clean :: "event \<Rightarrow> bool" where
  "is_clean (Clean i now t_del) = True"
| "is_clean (Request authorization request clk) = False"

definition bump :: "int \<Rightarrow> int \<Rightarrow> hash \<Rightarrow> hash" where
  \<comment> \<open>a hash with the counter of segment \<open>c\<close> raised by \<open>d\<close>\<close>
  "bump c d h = AList.update (str_int c) (field_val h c + d) h"

definition old_fields :: "usec \<Rightarrow> string list \<Rightarrow> bool" where
  \<comment> \<open>every field of the list names a segment before the window of \<open>now\<close>\<close>
  "old_fields now flds =
     (\<forall>f \<in> set flds. \<exists>i. py_int f = Some i \<and> i < get_current_segment now - segments + 1)"

fun started :: "event \<Rightarrow> usec" where
  \<comment> \<open>the first reading of the clock an event makes\<close>
  "started (Clean i now t_del) = now"
| "started (Request authorization request clk) = t_rpm clk"

section \<open>Decimal numerals: \<open>int(str(i)) = i\<close>\<close>

lemma digit_char_cases:
  "0 \<le> d \<Longrightarrow> d < 10 \<Longrightarrow> d \<in> {0,1,2,3,4,5,6,7,8,9::int}"
  by simp arith

lemma digit_char_props:
  assumes "0 \<le> d" "d < 10"
  shows "is_digit (digit_char d)" "digit_val (digit_char d) = d" "\<not> is_space (digit_char d)"
    "digit_char d \<noteq> CHR ''-''" "digit_char d \<noteq> CHR ''+''"
proof -
  have "d \<in> {0,1,2,3,4,5,6,7,8,9::int}" using assms by (rule digit_char_cases)
  then show "is_digit (digit_char d)" "digit_val (digit_char d) = d" "\<not> is_space (digit_char d)"
    "digit_char d \<noteq> CHR ''-''" "digit_char d \<noteq> CHR ''+''"
    by (auto simp: digit_char_def is_digit_def digit_val_def is_space_def)
qed

lemma digits_val_foldl:
  "\<forall>c \<in> set ds. is_digit c \<Longrightarrow>
     digits_val acc ds = Some (foldl (\<lambda>a c. 10 * a + digit_val c) acc ds)"
  by (induction ds arbitrary: acc) auto

lemma str_digits_digits:
  "0 \<le> n \<Longrightarrow> (\<forall>c \<in> set (str_digits n). is_digit c) \<and> str_digits n \<noteq> []
     \<and> foldl (\<lambda>a c. 10 * a + digit_val c) 0 (str_digits n) = n"
proof (induction n rule: str_digits.induct)
  case (1 n)
  show ?case
  proof (cases "n < 10")
    case True
    with 1 show ?thesis
      by (subst (1 2 3) str_digits.simps) (simp add: digit_char_props)
  next
    case False
    then have IH: "(\<forall>c \<in> set (str_digits (n div 10)). is_digit c)"
      "foldl (\<lambda>a c. 10 * a + digit_val c) 0 (str_digits (n div 10)) = n div 10"
      using 1 by auto
    have d: "0 \<le> n mod 10" "n mod 10 < 10" by auto
    show ?thesis
      using False IH
      by (subst (1 2 3) str_digits.simps) (simp add: digit_char_props [OF d])
  qed
qed

lemma dropWhile_hd_id: "xs \<noteq> [] \<Longrightarrow> \<not> P (hd xs) \<Longrightarrow> dropWhile P xs = xs"
  by (cases xs) auto

lemma strip_id:
  assumes "s \<noteq> []" "\<not> is_space (hd s)" "\<not> is_space (last s)"
  shows "strip s = s"
proof -
  have 1: "dropWhile is_space s = s"
    using assms by (simp add: dropWhile_hd_id)
  have 2: "dropWhile is_space (rev s) = rev s"
    using assms by (intro dropWhile_hd_id) (simp_all add: hd_rev)
  show ?thesis by (simp add: strip_def 1 2)
qed

lemma str_digits_ends:
  "0 \<le> n \<Longrightarrow> is_digit (hd (str_digits n)) \<and> is_digit (last (str_digits n))"
  using str_digits_digits [of n] by simp

lemma is_digit_not_space: "is_digit c \<Longrightarrow> \<not> is_space c \<and> c \<noteq> CHR ''-'' \<and> c \<noteq> CHR ''+''"
  by (auto simp: is_digit_def is_space_def)

lemma minus_not_space: "\<not> is_space CHR ''-''"
  by (simp add: is_space_def)

lemma strip_str_int: "strip (str_int i) = str_int i"
proof (cases "i < 0")
  case True
  then have n: "0 \<le> - i" by simp
  have ne: "str_digits (- i) \<noteq> []" using str_digits_digits [OF n] by simp
  have "\<not> is_space (last (str_digits (- i)))"
    using str_digits_ends [OF n] is_digit_not_space by blast
  then show ?thesis
    using True ne by (intro strip_id) (simp_all add: str_int_def minus_not_space)
next
  case False
  then have n: "0 \<le> i" by simp
  have ne: "str_digits i \<noteq> []" using str_digits_digits [OF n] by simp
  have "\<not> is_space (last (str_digits i))" "\<not> is_space (hd (str_digits i))"
    using str_digits_ends [OF n] is_digit_not_space by blast+
  then show ?thesis
    using False ne by (intro strip_id) (simp_all add: str_int_def)
qed

lemma unsigned_val_str_digits:
  assumes "0 \<le> n"
  shows "unsigned_val (str_digits n) = Some n"
proof -
  note D = str_digits_digits [OF assms]
  obtain c cs where cs: "str_digits n = c # cs"
    using D by (cases "str_digits n") auto
  have c: "is_digit c" using D cs by simp
  have "digits_val 0 (str_digits n) = Some n"
    using D digits_val_foldl [of "str_digits n" 0] by simp
  then show ?thesis using c cs by (simp add: unsigned_val_def)
qed

lemma py_int_str_int: "py_int (str_int i) = Some i"
proof (cases "i < 0")
  case True
  then have n: "0 \<le> - i" by simp
  have "py_int (str_int i) = (case str_int i of [] \<Rightarrow> None
      | c # cs \<Rightarrow> if c = CHR ''-'' then map_option uminus (unsigned_val cs)
          else if c = CHR ''+'' then unsigned_val cs else unsigned_val (c # cs))"
    by (simp add: py_int_def strip_str_int)
  also have "\<dots> = map_option uminus (unsigned_val (str_digits (- i)))"
    using True by (simp add: str_int_def)
  finally show ?thesis by (simp add: unsigned_val_str_digits [OF n])
next
  case False
  then have n: "0 \<le> i" by simp
  obtain c cs where cs: "str_digits i = c # cs"
    using str_digits_digits [OF n] by (cases "str_digits i") auto
  have c: "is_digit c" using str_digits_digits [OF n] cs by simp
  have "py_int (str_int i) = (case str_int i of [] \<Rightarrow> None
      | c # cs \<Rightarrow> if c = CHR ''-'' then map_option uminus (unsigned_val cs)
          else if c = CHR ''+'' then unsigned_val cs else unsigned_val (c # cs))"
    by (simp add: py_int_def strip_str_int)
  also have "\<dots> = unsigned_val (str_digits i)"
    using False is_digit_not_space [OF c] by (simp add: str_int_def cs)
  finally show ?thesis by (simp add: unsigned_val_str_digits [OF n])
qed

lemma str_int_inj:
  assumes "str_int i = str_int j"
  shows "i = j"
proof -
  have "Some i = py_int (str_int i)" by (simp only: py_int_str_int)
  also have "\<dots> = py_int (str_int j)" by (simp only: assms)
  also have "\<dots> = Some j" by (simp only: py_int_str_int)
  finally show ?thesis by simp
qed

section \<open>Round trips and the admission check\<close>

lemma round_trip_eq: "round_trip w = (faulty 0 w, after_trips 1 w)"
  by (cases "faults w") (auto simp: round_trip_def faulty_def after_trips_def)

lemma faulty_after_trips [simp]: "faulty n (after_trips m w) = faulty (m + n) w"
  by (auto simp: faulty_def after_trips_def)

lemma after_trips_after_trips [simp]: "after_trips n (after_trips m w) = after_trips (m + n) w"
  by (simp add: after_trips_def add.commute)

lemma after_trips_sel [simp]:
  "db (after_trips n w) = db w" "tasks (after_trips n w) = tasks w"
  "faults (after_trips n w) = drop n (faults w)"
  by (simp_all add: after_trips_def)

lemma get_window_sum_eq:
  "get_window_sum key now w =
     (if faulty 0 w then Inl RedisError else Inr (window_total key now (db w)), after_trips 1 w)"
  by (simp add: get_window_sum_def round_trip_eq)

lemma check_rate_limit_ok:
  assumes "\<not> faulty 0 w" "\<not> faulty 1 w" "\<not> faulty 2 w"
  shows "check_rate_limit encoding k request clk w =
     (Inr (rpm_used (snapshot k clk (db w)) + 1 \<le> rpm_limit (snapshot k clk (db w))
           \<and> input_tpm_used (snapshot k clk (db w)) + estimate_request_tokens encoding request
               \<le> input_tpm_limit (snapshot k clk (db w))
           \<and> output_tpm_used (snapshot k clk (db w)) + output_reservation request
               \<le> output_tpm_limit (snapshot k clk (db w)),
           snapshot k clk (db w)),
      after_trips 3 w)"
  using assms
  by (simp add: check_rate_limit_def get_window_sum_eq snapshot_def Let_def split_beta
        numeral_2_eq_2 numeral_3_eq_3 not_less)

lemma check_rate_limit_fault:
  assumes "faulty 0 w \<or> faulty 1 w \<or> faulty 2 w"
  shows "fst (check_rate_limit encoding k request clk w) = Inl RedisError"
    "db (snd (check_rate_limit encoding k request clk w)) = db w"
    "tasks (snd (check_rate_limit encoding k request clk w)) = tasks w"
  using assms
  by (auto simp add: check_rate_limit_def get_window_sum_eq Let_def split_beta numeral_2_eq_2)

section \<open>Window sums\<close>

lemma window_total_eq: "window_total key now r = hash_window (live r now key) now"
proof -
  let ?s = "get_current_segment now - segments + 1" and ?e = "get_current_segment now"
  show ?thesis
  proof (cases "live r now key")
    case None
    then show ?thesis
      by (simp add: window_total_def HMGET_def hash_window_def get_window_segments_def Let_def
            comp_def)
  next
    case (Some h)
    have "window_total key now r = sum_list (map (field_val h) [?s..?e])"
      by (simp add: window_total_def HMGET_def get_window_segments_def Let_def comp_def Some
            field_val_def [abs_def])
    also have "\<dots> = (\<Sum>i = ?s..?e. field_val h i)"
      by (simp add: sum_list_distinct_conv_sum_set)
    finally show ?thesis by (simp add: hash_window_def Some)
  qed
qed

lemma live_empty [simp]: "live empty_redis now key = None"
  by (simp add: live_def empty_redis_def)

lemma window_total_empty [simp]: "window_total key now empty_redis = 0"
  by (simp add: window_total_eq hash_window_def)

lemma fresh_world_sel [simp]:
  "db (fresh_world fs) = empty_redis" "faults (fresh_world fs) = fs" "tasks (fresh_world fs) = []"
  by (simp_all add: fresh_world_def)

lemma faulty_Nil [simp]: "faults w = [] \<Longrightarrow> \<not> faulty n w"
  by (simp add: faulty_def)

lemma estimate_sample [simp]: "estimate_request_tokens char_encoding (sample_request mt) = 12"
  by (simp add: estimate_request_tokens_def sample_request_def count_tokens_def char_encoding_def)

lemma limits_test_key_1 [simp]:
  "get_api_key_limits ''test-key-1'' = \<lparr>input_tpm = 1000, output_tpm = 1000, rpm = 10000\<rparr>"
  by (simp add: get_api_key_limits_def API_KEY_LIMITS_def)

lemma max_tokens_sample [simp]: "max_tokens (sample_request mt) = mt"
  by (simp add: sample_request_def)

text \<open>
  \<^bold>\<open>C1.\<close> When its three reads succeed, \<open>check_rate_limit\<close> returns \<open>admit = True\<close>
  exactly when \<open>used_rpm + 1 \<le> rpm_limit\<close>, \<open>used_itpm + input_est \<le> itpm_limit\<close> and
  \<open>used_otpm + output_res \<le> otpm_limit\<close> all hold, the three \<open>used\<close> being the window
  sums read from the store; when a read fails it raises and returns no decision.
\<close>

theorem check_rate_limit_admit_iff:
  "fst (check_rate_limit encoding k request clk w) =
     (if faulty 0 w \<or> faulty 1 w \<or> faulty 2 w then Inl RedisError
      else Inr
        (window_total (rpm_key (get_redis_keys k)) (t_rpm clk) (db w) + 1
             \<le> rpm (get_api_key_limits k)
          \<and> window_total (input_tpm_key (get_redis_keys k)) (t_input_tpm clk) (db w)
               + estimate_request_tokens encoding request
             \<le> input_tpm (get_api_key_limits k)
          \<and> window_total (output_tpm_key (get_redis_keys k)) (t_output_tpm clk) (db w)
               + output_reservation request
             \<le> output_tpm (get_api_key_limits k),
         snapshot k clk (db w)))"
proof (cases "faulty 0 w \<or> faulty 1 w \<or> faulty 2 w")
  case True
  then show ?thesis by (simp add: check_rate_limit_fault)
next
  case False
  then show ?thesis by (simp add: check_rate_limit_ok) (simp add: snapshot_def)
qed

theorem check_rate_limit_admit_iff_witness:
  "fst (check_rate_limit char_encoding ''test-key-1'' (sample_request (Some 1000))
          (sample_clock 1700000000000000) (fresh_world []))
     = Inr (True, snapshot ''test-key-1'' (sample_clock 1700000000000000) empty_redis)
   \<and> fst (check_rate_limit char_encoding ''test-key-1'' (sample_request (Some 1001))
          (sample_clock 1700000000000000) (fresh_world []))
     = Inr (False, snapshot ''test-key-1'' (sample_clock 1700000000000000) empty_redis)"
  using check_rate_limit_admit_iff [of char_encoding "''test-key-1''" "sample_request (Some 1000)"
      "sample_clock 1700000000000000" "fresh_world []"]
    check_rate_limit_admit_iff [of char_encoding "''test-key-1''" "sample_request (Some 1001)"
      "sample_clock 1700000000000000" "fresh_world []"]
  by (simp add: output_reservation_def)

section \<open>The credential check\<close>

lemma startswith_Nil [simp]: "startswith s []"
  by (simp add: startswith_def)

lemma startswith_append [simp]: "startswith (p @ s) p"
  by (simp add: startswith_def)

lemma replace_Nil [simp]: "old \<noteq> [] \<Longrightarrow> replace old new [] = []"
  by (simp add: replace.simps)

lemma replace_prefix: "old \<noteq> [] \<Longrightarrow> replace old new (old @ s) = new @ replace old new s"
  by (subst replace.simps) simp

lemma replace_length_le: "old \<noteq> [] \<Longrightarrow> length (replace old [] s) \<le> length s"
proof (induction old "[] :: string" s rule: replace.induct)
  case (1 old s)
  show ?case
  proof (cases "s = []")
    case True
    with 1 show ?thesis by simp
  next
    case False
    show ?thesis
    proof (cases "startswith s old")
      case True
      with 1 False have "length (replace old [] (drop (length old) s)) \<le> length s - length old"
        by simp
      with 1 False True show ?thesis by (subst replace.simps) simp
    next
      case no: False
      with 1 False have "length (replace old [] (tl s)) \<le> length s - 1" by simp
      with 1 False no show ?thesis by (subst replace.simps) (cases s; simp)
    qed
  qed
qed

lemma replace_contains_shorter:
  "old \<noteq> [] \<Longrightarrow> contains s old \<Longrightarrow> length (replace old [] s) < length s"
proof (induction s)
  case Nil
  then show ?case by simp
next
  case (Cons c cs)
  show ?case
  proof (cases "startswith (c # cs) old")
    case True
    let ?d = "drop (length old) (c # cs)"
    have eq: "replace old [] (c # cs) = replace old [] ?d"
      using True Cons.prems(1) by (subst replace.simps) simp
    have "length (replace old [] ?d) \<le> length ?d"
      by (rule replace_length_le [OF Cons.prems(1)])
    moreover have "length ?d < length (c # cs)"
      using Cons.prems(1) by (cases old) simp_all
    ultimately show ?thesis by (simp only: eq)
  next
    case False
    with Cons have "length (replace old [] cs) < length cs" by simp
    with False Cons.prems(1) show ?thesis by (subst replace.simps) simp
  qed
qed

lemma replace_no_occurrence:
  "old \<noteq> [] \<Longrightarrow> \<not> contains s old \<Longrightarrow> replace old new s = s"
proof (induction s)
  case Nil
  then show ?case by simp
next
  case (Cons c cs)
  then show ?case by (subst replace.simps) simp
qed

lemma replace_id_iff:
  "old \<noteq> [] \<Longrightarrow> replace old [] s = s \<longleftrightarrow> \<not> contains s old"
  using replace_contains_shorter [of old s] replace_no_occurrence [of old s "[]"]
  by (cases "contains s old") auto

text \<open>
  \<^bold>\<open>C10.\<close> For a header \<open>Bearer \<close> followed by \<open>rest\<close>, the key the handler goes on with
  is \<open>rest\<close> with its own occurrences of \<open>Bearer \<close> removed as well (it is looked up in
  the registry in that form); it is \<open>rest\<close> itself only if \<open>rest\<close> has no such
  occurrence, so a key that contains \<open>Bearer \<close> and is sent as \<open>Bearer key\<close> is never
  the key the handler authenticates.
\<close>

theorem bearer_removed_everywhere:
  "extract_api_key (Some (''Bearer '' @ rest)) =
     (if map_of API_KEY_LIMITS (replace ''Bearer '' [] rest) = None
      then Inl (HTTPException 401 (Error_detail ''Invalid API key'' ''invalid_request_error''))
      else Inr (replace ''Bearer '' [] rest))
   \<and> (replace ''Bearer '' [] rest = rest \<longleftrightarrow> \<not> contains rest ''Bearer '')
   \<and> (contains rest ''Bearer '' \<longrightarrow> extract_api_key (Some (''Bearer '' @ rest)) \<noteq> Inr rest)"
proof -
  have ne: "''Bearer '' \<noteq> []" by simp
  have r: "replace ''Bearer '' [] (''Bearer '' @ rest) = replace ''Bearer '' [] rest"
    using replace_prefix [OF ne, of "[]" rest] by simp
  have s: "startswith (''Bearer '' @ rest) ''Bearer ''" by (rule startswith_append)
  have 1: "extract_api_key (Some (''Bearer '' @ rest)) =
     (if map_of API_KEY_LIMITS (replace ''Bearer '' [] rest) = None
      then Inl (HTTPException 401 (Error_detail ''Invalid API key'' ''invalid_request_error''))
      else Inr (replace ''Bearer '' [] rest))"
    unfolding extract_api_key_def using r s by (simp add: Let_def del: append.simps)
  have 2: "replace ''Bearer '' [] rest = rest \<longleftrightarrow> \<not> contains rest ''Bearer ''"
    by (rule replace_id_iff [OF ne])
  show ?thesis using 1 2 by auto
qed

theorem bearer_removed_everywhere_witness:
  "extract_api_key (Some ''Bearer Bearer test-key-1'') = Inr ''test-key-1''
   \<and> contains ''my Bearer key'' ''Bearer ''
   \<and> extract_api_key (Some ''Bearer my Bearer key'') \<noteq> Inr ''my Bearer key''"
proof -
  have c: "contains ''my Bearer key'' ''Bearer ''" by (simp add: startswith_def)
  have r: "replace ''Bearer '' [] ''Bearer test-key-1'' = ''test-key-1''" by code_simp
  have m: "map_of API_KEY_LIMITS ''test-key-1'' \<noteq> None" by (simp add: API_KEY_LIMITS_def)
  show ?thesis
    using bearer_removed_everywhere [of "''Bearer test-key-1''"]
      bearer_removed_everywhere [of "''my Bearer key''"] c r m
    by simp
qed

section \<open>Headers and the output reservation\<close>

text \<open>
  \<^bold>\<open>C7.\<close> Each of the three \<open>X-RateLimit-Remaining-*\<close> headers is the decimal text of
  \<open>max(0, limit - used)\<close> for its metric, taken from the snapshot.
\<close>

theorem remaining_headers:
  "map_of (get_rate_limit_headers isoformat k info now) ''X-RateLimit-Remaining-Requests''
     = Some (str_int (max 0 (rpm_limit info - rpm_used info)))
   \<and> map_of (get_rate_limit_headers isoformat k info now) ''X-RateLimit-Remaining-Tokens-Input''
     = Some (str_int (max 0 (input_tpm_limit info - input_tpm_used info)))
   \<and> map_of (get_rate_limit_headers isoformat k info now) ''X-RateLimit-Remaining-Tokens-Output''
     = Some (str_int (max 0 (output_tpm_limit info - output_tpm_used info)))"
  by (simp add: get_rate_limit_headers_def Let_def)

text \<open>
  \<^bold>\<open>C8\<close> (as the code has it). The output reservation is \<open>max_tokens\<close> when it is set
  to a number other than 0, and 1000 when it is not set or set to 0.
\<close>

theorem output_reservation_cases:
  "output_reservation request =
     (case max_tokens request of None \<Rightarrow> 1000 | Some m \<Rightarrow> if m = 0 then 1000 else m)"
  by (simp add: output_reservation_def split: option.split)

section \<open>Clock arithmetic\<close>

lemma div_bounds:
  assumes "0 < (b::int)"
  shows "a div b * b \<le> a" "a < a div b * b + b"
  using div_mult_mod_eq [of a b] pos_mod_sign [OF assms, of a] pos_mod_bound [OF assms, of a]
  by linarith+

lemma div_less_of_less_mult:
  assumes "0 < (b::int)" "a < n * b"
  shows "a div b < n"
proof -
  have "a div b * b < n * b" using div_bounds(1) [OF assms(1), of a] assms(2) by linarith
  then show ?thesis using assms(1) by (simp add: mult_less_cancel_right_pos)
qed

lemma usec_per_sec_pos: "0 < usec_per_sec"
  by (simp add: usec_per_sec_def)

lemma int_time_bounds:
  "int_time t * usec_per_sec < t + usec_per_sec" "t - usec_per_sec < int_time t * usec_per_sec"
proof -
  note p = usec_per_sec_pos
  show "int_time t * usec_per_sec < t + usec_per_sec"
    using div_bounds [OF p, of t] div_bounds [OF p, of "- t"]
    by (auto simp: int_time_def trunc_div_def)
  show "t - usec_per_sec < int_time t * usec_per_sec"
    using div_bounds [OF p, of t] div_bounds [OF p, of "- t"]
    by (auto simp: int_time_def trunc_div_def)
qed

lemma segment_size_val: "segment_size = 5" "window_size = 60" "segments = 12"
  by (simp_all add: segment_size_def window_size_def segments_def
      SLIDING_WINDOW_SIZE_SECONDS_def WINDOW_SEGMENTS_def)

subsection \<open>Truncating \<open>total_seconds()\<close>\<close>

lemma binary_places_scaled:
  "0 < a \<Longrightarrow> 2 ^ 52 * usec_per_sec \<le> a * 2 ^ binary_places a"
proof (induction a rule: binary_places.induct)
  case (1 a)
  show ?case
  proof (cases "2 ^ 52 * usec_per_sec \<le> a")
    case True
    then show ?thesis by (simp add: binary_places.simps [of a])
  next
    case False
    with 1 have "2 ^ 52 * usec_per_sec \<le> (2 * a) * 2 ^ binary_places (2 * a)" by simp
    with False 1(2) show ?thesis by (simp add: binary_places.simps [of a] mult.assoc)
  qed
qed

lemma binary_places_small:
  assumes "0 < a" "a < 2 ^ 34 * usec_per_sec"
  shows "(2::int) ^ 19 \<le> 2 ^ binary_places a"
proof -
  let ?k = "binary_places a"
  define c where "c = 2 ^ 34 * usec_per_sec"
  have c: "0 < c" using usec_per_sec_pos by (simp add: c_def)
  have "2 ^ 18 * c = 2 ^ 52 * usec_per_sec" by (simp add: c_def)
  also have "\<dots> \<le> a * 2 ^ ?k" by (rule binary_places_scaled [OF assms(1)])
  also have "a * 2 ^ ?k < c * 2 ^ ?k"
    using assms(2) by (simp add: mult_strict_right_mono c_def)
  finally have "2 ^ 18 * c < 2 ^ ?k * c" by (simp add: mult.commute)
  then have "(2::int) ^ 18 < 2 ^ ?k"
    using c by (simp only: mult_less_cancel_right_pos)
  then have "18 < ?k" by (simp only: power_strict_increasing_iff)
  then have "19 \<le> ?k" by simp
  then show ?thesis by (simp only: power_increasing_iff)
qed

lemma round_nearest_trunc:
  fixes a P D m :: int
  assumes D: "0 < D" and P: "D < 2 * P" and a: "0 \<le> a"
    and m: "(a * P) div D \<le> m" "2 * m * D \<le> 2 * (a * P) + D"
  shows "m div P = a div D"
proof -
  define q f where q_f_def: "q = a div D" "f = a mod D"
  have P0: "0 < P" using D P by simp
  have af: "a = q * D + f" by (simp add: q_f_def)
  have f: "0 \<le> f" "f < D" using D by (simp_all add: q_f_def)
  have aP: "a * P = D * (q * P) + f * P"
    unfolding af by (simp add: algebra_simps)
  have fP: "0 \<le> f * P" using f P0 by simp
  have "1 * P \<le> (D - f) * P" using f P0 by (intro mult_right_mono) simp_all
  then have fP2: "f * P + P \<le> D * P" by (simp add: algebra_simps)
  have "q * P \<le> (a * P) div D"
  proof -
    have "(D * (q * P)) div D \<le> (a * P) div D"
      using fP D by (intro zdiv_mono1) (simp_all add: aP)
    then show ?thesis using D by simp
  qed
  with m(1) have lo: "q * P \<le> m" by simp
  have hi: "m < q * P + P"
  proof (rule ccontr)
    assume "\<not> m < q * P + P"
    then have "q * P + P \<le> m" by simp
    then have "(q * P + P) * (2 * D) \<le> m * (2 * D)"
      using D by (intro mult_right_mono) simp_all
    then have "2 * (D * (q * P)) + 2 * (D * P) \<le> 2 * m * D" by (simp add: algebra_simps)
    with m(2) aP have "2 * (D * P) \<le> 2 * (f * P) + D" by simp
    with fP2 P show False by simp
  qed
  have "m div P = q"
    by (rule int_div_pos_eq [of m P q "m - q * P"]) (use lo hi in \<open>simp_all add: algebra_simps\<close>)
  then show ?thesis by (simp add: q_f_def)
qed

lemma total_seconds_nonneg: "0 \<le> d \<Longrightarrow> 0 \<le> fst (total_seconds d)"
proof -
  assume d: "0 \<le> d"
  have "0 \<le> (\<bar>d\<bar> * 2 ^ binary_places \<bar>d\<bar>) div usec_per_sec"
    using usec_per_sec_pos by (simp add: pos_imp_zdiv_nonneg_iff)
  then show ?thesis using d by (simp add: total_seconds_def Let_def)
qed

lemma int_total_seconds_nonneg:
  assumes "0 \<le> d" "d < 2 ^ 34 * usec_per_sec"
  shows "int_float (total_seconds d) = d div usec_per_sec"
proof (cases "d = 0")
  case True
  then show ?thesis
    by (simp add: total_seconds_def int_float_def trunc_div_def Let_def binary_places.simps [of 0]
        usec_per_sec_def)
next
  case False
  with assms have pos: "0 < d" by simp
  define P :: int where "P = 2 ^ binary_places d"
  define n r where n_r_def: "n = (d * P) div usec_per_sec" "r = (d * P) mod usec_per_sec"
  define m where "m = (if usec_per_sec < 2 * r \<or> (2 * r = usec_per_sec \<and> odd n) then n + 1 else n)"
  have P: "usec_per_sec < 2 * P"
    using binary_places_small [OF pos assms(2)] by (simp add: usec_per_sec_def P_def)
  have nr: "d * P = n * usec_per_sec + r" by (simp add: n_r_def)
  have r: "0 \<le> r" using usec_per_sec_pos by (simp add: n_r_def)
  have m1: "(d * P) div usec_per_sec \<le> m" by (simp add: n_r_def m_def)
  have m2: "2 * m * usec_per_sec \<le> 2 * (d * P) + usec_per_sec"
    unfolding nr m_def using r usec_per_sec_pos by (auto simp: algebra_simps)
  have e: "m div P = d div usec_per_sec"
    by (rule round_nearest_trunc [OF usec_per_sec_pos P assms(1) m1 m2])
  have "0 \<le> n"
    using pos usec_per_sec_pos by (simp add: n_r_def P_def pos_imp_zdiv_nonneg_iff)
  then have m0: "0 \<le> m" by (simp add: m_def)
  have "total_seconds d = (m, binary_places d)"
    using pos by (simp add: total_seconds_def Let_def m_def n_r_def P_def)
  then have "int_float (total_seconds d) = trunc_div m P"
    by (simp add: int_float_def P_def)
  with m0 e show ?thesis by (simp add: trunc_div_def)
qed

lemma int_total_seconds:
  assumes "\<bar>d\<bar> < 2 ^ 34 * usec_per_sec"
  shows "int_float (total_seconds d) = trunc_div d usec_per_sec"
proof (cases "0 \<le> d")
  case True
  with assms show ?thesis by (simp add: int_total_seconds_nonneg trunc_div_def)
next
  case False
  then have n: "d < 0" by simp
  have p: "int_float (total_seconds (- d)) = (- d) div usec_per_sec"
    using assms n by (intro int_total_seconds_nonneg) simp_all
  have "total_seconds d = (- fst (total_seconds (- d)), snd (total_seconds (- d)))"
    using n by (simp add: total_seconds_def Let_def)
  moreover have "0 \<le> fst (total_seconds (- d))"
    using n by (intro total_seconds_nonneg) simp
  ultimately have "int_float (total_seconds d) = - int_float (total_seconds (- d))"
    by (cases "fst (total_seconds (- d)) = 0")
       (auto simp: int_float_def trunc_div_def split_beta)
  with p n show ?thesis by (simp add: trunc_div_def)
qed

text \<open>
  Past that bound the double nearest to the quotient may be a whole number the quotient
  has not reached:
\<close>

lemma total_seconds_rounds_up:
  "int_float (total_seconds 19999999999999999) = 20000000000
   \<and> trunc_div 19999999999999999 usec_per_sec = 19999999999"
  by code_simp

section \<open>Counters, and the view of the store after a command\<close>

subsection \<open>Counters of a hash\<close>

lemma field_val_update:
  "field_val (AList.update (str_int c) x h) i = (if i = c then x else field_val h i)"
  by (auto simp: field_val_def update_conv' dest: str_int_inj)

lemma field_val_Nil [simp]: "field_val [] i = 0"
  by (simp add: field_val_def)

lemma sum_one_changed:
  fixes f :: "int \<Rightarrow> int"
  assumes "finite A" "c \<in> A"
  shows "(\<Sum>i\<in>A. if i = c then f c + d else f i) = sum f A + d"
proof -
  have "(\<Sum>i\<in>A. if i = c then f c + d else f i)
          = (f c + d) + (\<Sum>i\<in>A - {c}. if i = c then f c + d else f i)"
    using assms by (subst sum.remove [of A c]) simp_all
  also have "(\<Sum>i\<in>A - {c}. if i = c then f c + d else f i) = sum f (A - {c})"
    by (rule sum.cong) auto
  also have "f c + d + sum f (A - {c}) = sum f A + d"
    using assms by (subst sum.remove [of A c f]) simp_all
  finally show ?thesis .
qed

lemma hash_window_stored: "hash_window (live r now key) now' = hash_window (Some (stored r now key)) now'"
  by (simp add: hash_window_def stored_def split: option.split)

lemma window_total_stored:
  "window_total key now r =
     (\<Sum>i = get_current_segment now - segments + 1..get_current_segment now.
        field_val (stored r now key) i)"
  by (simp add: window_total_eq hash_window_def stored_def split: option.split)

subsection \<open>The view of the store after a command\<close>

lemma field_val_bump: "field_val (bump c d h) i = (if i = c then field_val h c + d else field_val h i)"
  by (simp add: bump_def field_val_update)

lemma HINCRBY_reply:
  "fst (HINCRBY key (str_int c) v now r)
     = (\<not> (int64 v \<and> int64 (field_val (stored r now key) c + v)))"
  by (auto simp: HINCRBY_def Let_def stored_def field_val_def split: option.splits)

lemma live_HINCRBY_other:
  "key' \<noteq> key \<Longrightarrow> live (snd (HINCRBY key f v now r)) t key' = live r t key'"
  by (simp add: HINCRBY_def Let_def live_def split: option.splits)

lemma live_HINCRBY_same:
  "live (snd (HINCRBY key (str_int c) v now r)) now key
     = (if int64 v \<and> int64 (field_val (stored r now key) c + v)
        then Some (bump c v (stored r now key)) else live r now key)"
  by (auto simp: HINCRBY_def Let_def live_def stored_def bump_def field_val_def
      split: option.splits if_splits)

lemma live_EXPIRE_other:
  "key' \<noteq> key \<Longrightarrow> live (EXPIRE key s now r) t key' = live r t key'"
  by (simp add: EXPIRE_def live_def split: option.splits)

lemma live_EXPIRE_same:
  assumes "0 \<le> s" "now \<le> t" "t \<le> now + s * usec_per_sec"
  shows "live (EXPIRE key s now r) t key = live r now key"
  using assms by (auto simp: EXPIRE_def live_def split: option.splits if_splits)

lemma live_HDEL_other:
  "key' \<noteq> key \<Longrightarrow> live (HDEL key F t_del r) t key' = live r t key'"
  by (auto simp: HDEL_def live_def Let_def split: option.splits)

lemma counter_empty [simp]: "counter empty_redis now key = 0"
  by (simp add: counter_def stored_def)

section \<open>The pipeline of \<open>record_usage\<close>\<close>

lemma get_current_segment_mono: "t \<le> t' \<Longrightarrow> get_current_segment t \<le> get_current_segment t'"
proof -
  assume le: "t \<le> t'"
  have "int_time t \<le> int_time t'"
    using le zdiv_mono1 [of t t' usec_per_sec] zdiv_mono1 [of "- t'" "- t" usec_per_sec]
      usec_per_sec_pos
      pos_imp_zdiv_nonneg_iff [of usec_per_sec t'] pos_imp_zdiv_nonneg_iff [of usec_per_sec "- t"]
    by (auto simp: int_time_def trunc_div_def)
  then show ?thesis
    by (simp add: get_current_segment_def segment_size_val zdiv_mono1)
qed

lemma same_segment_close:
  assumes "get_current_segment t = get_current_segment now"
  shows "t \<le> now + window_size * 2 * usec_per_sec"
proof -
  let ?a = "int_time t" and ?b = "int_time now"
  have "?a div 5 = ?b div 5"
    using assms by (simp add: get_current_segment_def segment_size_val)
  then have "?a < ?b + 5"
    using div_bounds [of 5 ?a] div_bounds [of 5 ?b] by simp
  then have "?a + 1 \<le> ?b + 5" by simp
  then have "(?a + 1) * usec_per_sec \<le> (?b + 5) * usec_per_sec"
    using usec_per_sec_pos by (simp only: mult_le_cancel_right_pos)
  moreover have "t < ?a * usec_per_sec + usec_per_sec" "?b * usec_per_sec < now + usec_per_sec"
    using int_time_bounds [of t] int_time_bounds [of now] by simp_all
  ultimately have "t < now + 6 * usec_per_sec" by (simp add: algebra_simps)
  then show ?thesis using usec_per_sec_pos by (simp add: segment_size_val)
qed

lemma metric_keys_distinct [simp]:
  "rpm_key (get_redis_keys k) \<noteq> input_tpm_key (get_redis_keys k')"
  "rpm_key (get_redis_keys k) \<noteq> output_tpm_key (get_redis_keys k')"
  "input_tpm_key (get_redis_keys k) \<noteq> output_tpm_key (get_redis_keys k')"
  "input_tpm_key (get_redis_keys k) \<noteq> rpm_key (get_redis_keys k')"
  "output_tpm_key (get_redis_keys k) \<noteq> rpm_key (get_redis_keys k')"
  "output_tpm_key (get_redis_keys k) \<noteq> input_tpm_key (get_redis_keys k')"
  by (simp_all add: get_redis_keys_def)

lemma metric_keys_inj [simp]:
  "rpm_key (get_redis_keys k) = rpm_key (get_redis_keys k') \<longleftrightarrow> k = k'"
  "input_tpm_key (get_redis_keys k) = input_tpm_key (get_redis_keys k') \<longleftrightarrow> k = k'"
  "output_tpm_key (get_redis_keys k) = output_tpm_key (get_redis_keys k') \<longleftrightarrow> k = k'"
  by (simp_all add: get_redis_keys_def)

lemma live_pipeline:
  fixes r :: redis and v1 v2 v3 c now :: int
  assumes d: "k1 \<noteq> k2" "k1 \<noteq> k3" "k2 \<noteq> k3"
    and s: "0 \<le> s"
  defines "r' \<equiv> EXPIRE k3 s now (EXPIRE k2 s now (EXPIRE k1 s now
                 (snd (HINCRBY k3 (str_int c) v3 now (snd (HINCRBY k2 (str_int c) v2 now
                 (snd (HINCRBY k1 (str_int c) v1 now r))))))))"
  shows "now \<le> t \<Longrightarrow> t \<le> now + s * usec_per_sec \<Longrightarrow>
           live r' t k1 = (if int64 v1 \<and> int64 (field_val (stored r now k1) c + v1)
                           then Some (bump c v1 (stored r now k1)) else live r now k1)"
    and "now \<le> t \<Longrightarrow> t \<le> now + s * usec_per_sec \<Longrightarrow>
           live r' t k2 = (if int64 v2 \<and> int64 (field_val (stored r now k2) c + v2)
                           then Some (bump c v2 (stored r now k2)) else live r now k2)"
    and "now \<le> t \<Longrightarrow> t \<le> now + s * usec_per_sec \<Longrightarrow>
           live r' t k3 = (if int64 v3 \<and> int64 (field_val (stored r now k3) c + v3)
                           then Some (bump c v3 (stored r now k3)) else live r now k3)"
    and "key \<noteq> k1 \<Longrightarrow> key \<noteq> k2 \<Longrightarrow> key \<noteq> k3 \<Longrightarrow> live r' t' key = live r t' key"
proof -
  let ?h1 = "snd (HINCRBY k1 (str_int c) v1 now r)"
  let ?h2 = "snd (HINCRBY k2 (str_int c) v2 now ?h1)"
  let ?h3 = "snd (HINCRBY k3 (str_int c) v3 now ?h2)"
  let ?e1 = "EXPIRE k1 s now ?h3"
  let ?e2 = "EXPIRE k2 s now ?e1"
  have l2: "live ?h1 now k2 = live r now k2"
    using d by (simp add: live_HINCRBY_other)
  have l3: "live ?h2 now k3 = live r now k3"
    using d by (simp add: live_HINCRBY_other)
  have st2: "stored ?h1 now k2 = stored r now k2" by (simp add: stored_def l2)
  have st3: "stored ?h2 now k3 = stored r now k3" by (simp add: stored_def l3)
  show "live r' t k1 = (if int64 v1 \<and> int64 (field_val (stored r now k1) c + v1)
                         then Some (bump c v1 (stored r now k1)) else live r now k1)"
    if "now \<le> t" "t \<le> now + s * usec_per_sec"
    using d that s
    by (simp add: r'_def live_EXPIRE_other live_EXPIRE_same live_HINCRBY_other live_HINCRBY_same)
  show "live r' t k2 = (if int64 v2 \<and> int64 (field_val (stored r now k2) c + v2)
                         then Some (bump c v2 (stored r now k2)) else live r now k2)"
    if "now \<le> t" "t \<le> now + s * usec_per_sec"
    using d that s
    by (simp add: r'_def live_EXPIRE_other live_EXPIRE_same live_HINCRBY_other live_HINCRBY_same
        st2 l2)
  show "live r' t k3 = (if int64 v3 \<and> int64 (field_val (stored r now k3) c + v3)
                         then Some (bump c v3 (stored r now k3)) else live r now k3)"
    if "now \<le> t" "t \<le> now + s * usec_per_sec"
    using d that s
    by (simp add: r'_def live_EXPIRE_other live_EXPIRE_same live_HINCRBY_other live_HINCRBY_same
        st3 l3)
  show "live r' t' key = live r t' key" if "key \<noteq> k1" "key \<noteq> k2" "key \<noteq> k3"
    using that by (simp add: r'_def live_EXPIRE_other live_HINCRBY_other)
qed

lemma live_recorded:
  assumes "t_rec \<le> t" "t \<le> t_rec + window_size * 2 * usec_per_sec"
  shows "live (recorded k a b t_rec r) t (rpm_key (get_redis_keys k))
           = (if fits (rpm_key (get_redis_keys k)) 1 t_rec r
              then Some (bump (get_current_segment t_rec) 1
                           (stored r t_rec (rpm_key (get_redis_keys k))))
              else live r t_rec (rpm_key (get_redis_keys k)))"
    and "live (recorded k a b t_rec r) t (input_tpm_key (get_redis_keys k))
           = (if fits (input_tpm_key (get_redis_keys k)) a t_rec r
              then Some (bump (get_current_segment t_rec) a
                           (stored r t_rec (input_tpm_key (get_redis_keys k))))
              else live r t_rec (input_tpm_key (get_redis_keys k)))"
    and "live (recorded k a b t_rec r) t (output_tpm_key (get_redis_keys k))
           = (if fits (output_tpm_key (get_redis_keys k)) b t_rec r
              then Some (bump (get_current_segment t_rec) b
                           (stored r t_rec (output_tpm_key (get_redis_keys k))))
              else live r t_rec (output_tpm_key (get_redis_keys k)))"
  using assms
  by (simp_all add: recorded_def Let_def live_pipeline segment_size_val fits_def counter_def)

lemma live_recorded_other:
  assumes "key \<noteq> rpm_key (get_redis_keys k)" "key \<noteq> input_tpm_key (get_redis_keys k)"
    "key \<noteq> output_tpm_key (get_redis_keys k)"
  shows "live (recorded k a b t_rec r) t key = live r t key"
  using assms by (simp add: recorded_def Let_def live_pipeline segment_size_val)

lemma record_usage_eq:
  "record_usage k a b now w =
     (if faulty 0 w then (Inl RedisError, after_trips 1 w)
      else if fits (rpm_key (get_redis_keys k)) 1 now (db w)
                \<and> fits (input_tpm_key (get_redis_keys k)) a now (db w)
                \<and> fits (output_tpm_key (get_redis_keys k)) b now (db w)
      then (Inr (),
            (after_trips 1 w)\<lparr>db := recorded k a b now (db w),
              tasks := tasks w @ [rpm_key (get_redis_keys k), input_tpm_key (get_redis_keys k),
                                  output_tpm_key (get_redis_keys k)]\<rparr>)
      else (Inl ResponseError, (after_trips 1 w)\<lparr>db := recorded k a b now (db w)\<rparr>))"
proof -
  let ?c = "get_current_segment now"
  let ?k1 = "rpm_key (get_redis_keys k)" and ?k2 = "input_tpm_key (get_redis_keys k)"
    and ?k3 = "output_tpm_key (get_redis_keys k)"
  let ?h1 = "snd (HINCRBY ?k1 (str_int ?c) 1 now (db w))"
  let ?h2 = "snd (HINCRBY ?k2 (str_int ?c) a now ?h1)"
  have st2: "stored ?h1 now ?k2 = stored (db w) now ?k2"
    by (simp add: stored_def live_HINCRBY_other)
  have st3: "stored ?h2 now ?k3 = stored (db w) now ?k3"
    by (simp add: stored_def live_HINCRBY_other)
  show ?thesis
    by (simp add: record_usage_def round_trip_eq recorded_def Let_def split_beta HINCRBY_reply
        st2 st3 fits_def counter_def)
qed

section \<open>The handler, case by case\<close>

lemma chat_completions_unauthorized:
  "extract_api_key authorization = Inl r \<Longrightarrow>
     chat_completions encoding isoformat request authorization clk w = (r, w)"
  by (simp add: chat_completions_def)

lemma chat_completions_read_fault:
  assumes "extract_api_key authorization = Inr k"
    and "fst (check_rate_limit encoding k request clk w) = Inl e"
  shows "chat_completions encoding isoformat request authorization clk w
           = (Raised e, snd (check_rate_limit encoding k request clk w))"
proof -
  obtain x w1 where c: "check_rate_limit encoding k request clk w = (x, w1)"
    by (cases "check_rate_limit encoding k request clk w")
  with assms(2) have "x = Inl e" by simp
  with c assms(1) show ?thesis by (simp add: chat_completions_def)
qed

lemma chat_completions_rejected:
  assumes "extract_api_key authorization = Inr k"
    and "check_rate_limit encoding k request clk w = (Inr (False, info), w1)"
  shows "chat_completions encoding isoformat request authorization clk w
           = (JSONResponse 429 (get_rate_limit_headers isoformat k info (t_headers clk))
                (Rate_limit_error ''Rate limit exceeded'' ''rate_limit_exceeded''
                   None ''rate_limit_exceeded''), w1)"
  using assms by (simp add: chat_completions_def)

lemma chat_completions_recorded:
  assumes "extract_api_key authorization = Inr k"
    and "check_rate_limit encoding k request clk w = (Inr (True, info), w1)"
  shows "chat_completions encoding isoformat request authorization clk w
           = (case record_usage k (estimate_request_tokens encoding request)
                     (count_tokens encoding (generate_mock_content request (pick clk)))
                     (t_record clk) w1 of
                (Inl e, w2) \<Rightarrow> (Raised e, w2)
              | (Inr u, w2) \<Rightarrow>
                  (JSONResponse 200 (get_rate_limit_headers isoformat k info (t_headers clk))
                     (Completion (generate_mock_response encoding request clk)), w2))"
proof -
  have "prompt_tokens (usage (generate_mock_response encoding request clk))
          = estimate_request_tokens encoding request"
    "completion_tokens (usage (generate_mock_response encoding request clk))
          = count_tokens encoding (generate_mock_content request (pick clk))"
    by (simp_all add: generate_mock_response_def Let_def)
  with assms show ?thesis by (simp add: chat_completions_def Let_def)
qed

lemma chat_completions_admitted:
  assumes "extract_api_key authorization = Inr k"
    and "check_rate_limit encoding k request clk w = (Inr (True, info), w1)"
  defines "a \<equiv> estimate_request_tokens encoding request"
    and "b \<equiv> count_tokens encoding (generate_mock_content request (pick clk))"
  shows "chat_completions encoding isoformat request authorization clk w
           = (if faulty 0 w1 then (Raised RedisError, after_trips 1 w1)
              else if fits (rpm_key (get_redis_keys k)) 1 (t_record clk) (db w1)
                        \<and> fits (input_tpm_key (get_redis_keys k)) a (t_record clk) (db w1)
                        \<and> fits (output_tpm_key (get_redis_keys k)) b (t_record clk) (db w1)
              then (JSONResponse 200 (get_rate_limit_headers isoformat k info (t_headers clk))
                      (Completion (generate_mock_response encoding request clk)),
                    (after_trips 1 w1)\<lparr>db := recorded k a b (t_record clk) (db w1),
                      tasks := tasks w1 @ [rpm_key (get_redis_keys k),
                         input_tpm_key (get_redis_keys k), output_tpm_key (get_redis_keys k)]\<rparr>)
              else (Raised ResponseError,
                    (after_trips 1 w1)\<lparr>db := recorded k a b (t_record clk) (db w1)\<rparr>))"
  unfolding a_def b_def
  by (simp add: chat_completions_recorded [OF assms(1,2)] record_usage_eq)

section \<open>A rejected request writes nothing\<close>

lemma extract_test_key_1 [simp]: "extract_api_key (Some ''Bearer test-key-1'') = Inr ''test-key-1''"
  by code_simp

lemma check_fresh:
  "faults w = [] \<Longrightarrow> db w = empty_redis \<Longrightarrow>
   check_rate_limit char_encoding ''test-key-1'' (sample_request mt) clk w =
     (Inr (output_reservation (sample_request mt) \<le> 1000,
           snapshot ''test-key-1'' clk empty_redis), after_trips 3 w)"
  by (simp add: check_rate_limit_ok) (simp add: snapshot_def)

text \<open>
  \<^bold>\<open>C6.\<close> \<open>check_rate_limit\<close> leaves the store as it found it, and creates no task;
  and when it returns \<open>admit = False\<close> the handler answers 429 having made the three
  reads and nothing else: no fourth round trip (the pipeline of \<open>record_usage\<close>), the
  same store, no task created.
\<close>

theorem check_reads_only:
  "db (snd (check_rate_limit encoding k request clk w)) = db w
   \<and> tasks (snd (check_rate_limit encoding k request clk w)) = tasks w
   \<and> (extract_api_key authorization = Inr k
        \<and> fst (check_rate_limit encoding k request clk w) = Inr (False, info)
      \<longrightarrow> chat_completions encoding isoformat request authorization clk w
            = (JSONResponse 429 (get_rate_limit_headers isoformat k info (t_headers clk))
                 (Rate_limit_error ''Rate limit exceeded'' ''rate_limit_exceeded''
                    None ''rate_limit_exceeded''),
               after_trips 3 w)
          \<and> db (snd (chat_completions encoding isoformat request authorization clk w)) = db w
          \<and> tasks (snd (chat_completions encoding isoformat request authorization clk w))
              = tasks w)"
proof -
  let ?c = "check_rate_limit encoding k request clk w"
  have frame: "db (snd ?c) = db w \<and> tasks (snd ?c) = tasks w"
  proof (cases "faulty 0 w \<or> faulty 1 w \<or> faulty 2 w")
    case True
    then show ?thesis by (simp add: check_rate_limit_fault)
  next
    case False
    then show ?thesis by (simp add: check_rate_limit_ok)
  qed
  have "chat_completions encoding isoformat request authorization clk w
          = (JSONResponse 429 (get_rate_limit_headers isoformat k info (t_headers clk))
               (Rate_limit_error ''Rate limit exceeded'' ''rate_limit_exceeded''
                  None ''rate_limit_exceeded''),
             after_trips 3 w)"
    if a: "extract_api_key authorization = Inr k" and c: "fst ?c = Inr (False, info)"
  proof -
    have nf: "\<not> (faulty 0 w \<or> faulty 1 w \<or> faulty 2 w)"
      using c check_rate_limit_fault(1) [of w encoding k request clk] by auto
    then have "?c = (fst ?c, after_trips 3 w)" by (simp add: check_rate_limit_ok)
    with c have "?c = (Inr (False, info), after_trips 3 w)" by simp
    then show ?thesis by (rule chat_completions_rejected [OF a])
  qed
  with frame show ?thesis by simp
qed

theorem check_reads_only_witness:
  "fst (check_rate_limit char_encoding ''test-key-1'' (sample_request (Some 1001))
          (sample_clock 1700000000000000) (fresh_world []))
     = Inr (False, snapshot ''test-key-1'' (sample_clock 1700000000000000) empty_redis)
   \<and> chat_completions char_encoding plain_isoformat (sample_request (Some 1001))
        (Some ''Bearer test-key-1'') (sample_clock 1700000000000000) (fresh_world [])
     = (JSONResponse 429
          (get_rate_limit_headers plain_isoformat ''test-key-1''
             (snapshot ''test-key-1'' (sample_clock 1700000000000000) empty_redis)
             (t_headers (sample_clock 1700000000000000)))
          (Rate_limit_error ''Rate limit exceeded'' ''rate_limit_exceeded''
             None ''rate_limit_exceeded''),
        after_trips 3 (fresh_world []))
   \<and> db (snd (chat_completions char_encoding plain_isoformat (sample_request (Some 1001))
        (Some ''Bearer test-key-1'') (sample_clock 1700000000000000) (fresh_world [])))
     = empty_redis"
  using check_reads_only [of char_encoding "''test-key-1''" "sample_request (Some 1001)"
      "sample_clock 1700000000000000" "fresh_world []" "Some ''Bearer test-key-1''"
      "snapshot ''test-key-1'' (sample_clock 1700000000000000) empty_redis" plain_isoformat]
  by (simp add: check_fresh output_reservation_def)

section \<open>Responses and store failures\<close>

text \<open>
  \<^bold>\<open>C9.\<close> For an authenticated request whose check returns a decision, the headers
  made from the snapshot are the headers of the response, when it is rejected (429) and
  when it is admitted and recorded (200); and whatever response the handler returns
  for the request carries these headers, with status 429 or 200. An admitted request
  gets no response when \<open>record_usage\<close> raises, which it does when its round trip fails
  or the store refuses an increment.
\<close>

theorem headers_on_both_paths:
  assumes "extract_api_key authorization = Inr k"
    and "check_rate_limit encoding k request clk w = (Inr (allowed, info), w1)"
  shows "(\<not> allowed \<longrightarrow>
            (\<exists>body. fst (chat_completions encoding isoformat request authorization clk w)
               = JSONResponse 429 (get_rate_limit_headers isoformat k info (t_headers clk)) body))
       \<and> (allowed
            \<and> fst (record_usage k (estimate_request_tokens encoding request)
                     (count_tokens encoding (generate_mock_content request (pick clk)))
                     (t_record clk) w1) = Inr () \<longrightarrow>
            (\<exists>body. fst (chat_completions encoding isoformat request authorization clk w)
               = JSONResponse 200 (get_rate_limit_headers isoformat k info (t_headers clk)) body))
       \<and> (\<forall>status hs body.
            fst (chat_completions encoding isoformat request authorization clk w)
              = JSONResponse status hs body \<longrightarrow>
            hs = get_rate_limit_headers isoformat k info (t_headers clk)
            \<and> (status = 429 \<or> status = 200))"
proof (cases allowed)
  case True
  let ?r = "record_usage k (estimate_request_tokens encoding request)
              (count_tokens encoding (generate_mock_content request (pick clk)))
              (t_record clk) w1"
  obtain x w2 where r: "?r = (x, w2)" by (cases ?r)
  show ?thesis
    using True assms r by (cases x) (simp_all add: chat_completions_recorded)
next
  case False
  with assms show ?thesis by (simp add: chat_completions_rejected)
qed

theorem headers_on_both_paths_witness:
  "(\<exists>body. fst (chat_completions char_encoding plain_isoformat (sample_request (Some 1001))
        (Some ''Bearer test-key-1'') (sample_clock 1700000000000000) (fresh_world []))
     = JSONResponse 429
          (get_rate_limit_headers plain_isoformat ''test-key-1''
             (snapshot ''test-key-1'' (sample_clock 1700000000000000) empty_redis)
             1700000000000000) body)
   \<and> (\<exists>body. fst (chat_completions char_encoding plain_isoformat (sample_request (Some 1000))
        (Some ''Bearer test-key-1'') (sample_clock 1700000000000000) (fresh_world []))
     = JSONResponse 200
          (get_rate_limit_headers plain_isoformat ''test-key-1''
             (snapshot ''test-key-1'' (sample_clock 1700000000000000) empty_redis)
             1700000000000000) body)"
proof -
  let ?clk = "sample_clock 1700000000000000"
  have t: "t_headers ?clk = 1700000000000000" by (simp add: sample_clock_def)
  have a: "extract_api_key (Some ''Bearer test-key-1'') = Inr ''test-key-1''" by simp
  have r: "check_rate_limit char_encoding ''test-key-1'' (sample_request (Some 1001)) ?clk
             (fresh_world [])
           = (Inr (False, snapshot ''test-key-1'' ?clk empty_redis), after_trips 3 (fresh_world []))"
    by (simp add: check_fresh output_reservation_def)
  have s: "check_rate_limit char_encoding ''test-key-1'' (sample_request (Some 1000)) ?clk
             (fresh_world [])
           = (Inr (True, snapshot ''test-key-1'' ?clk empty_redis), after_trips 3 (fresh_world []))"
    by (simp add: check_fresh output_reservation_def)
  have b: "count_tokens char_encoding (generate_mock_content (sample_request (Some 1000)) 0) = 2520"
    by (simp add: count_tokens_def char_encoding_def generate_mock_content_def templates_def
        length_concat sum_list_replicate)
  have p: "pick ?clk = 0" by (simp add: sample_clock_def)
  have u: "fst (record_usage ''test-key-1'' 12 2520 (t_record ?clk) (after_trips 3 (fresh_world [])))
             = Inr ()"
    by (simp add: record_usage_eq fits_def int64_def)
  show ?thesis
    using headers_on_both_paths [OF a r, of plain_isoformat]
      headers_on_both_paths [OF a s, of plain_isoformat] u
    by (simp add: t b p)
qed

text \<open>
  \<^bold>\<open>C5\<close> (as the code has it). When a read of the store fails during the check of an
  authenticated request, the read is not tried again: the error leaves the handler
  uncaught, after exactly the round trips up to the failed one. No response is built,
  nothing is recorded and no task is created, so the request is not admitted.
\<close>

theorem read_failure_propagates:
  assumes "extract_api_key authorization = Inr k"
    and "i < 3" and "faulty i w" and "\<forall>j < i. \<not> faulty j w"
  shows "chat_completions encoding isoformat request authorization clk w
           = (Raised RedisError, after_trips (Suc i) w)"
proof -
  have f: "faulty 0 w \<or> faulty 1 w \<or> faulty 2 w"
    using assms(2,3) by (auto simp: less_Suc_eq numeral_3_eq_3 numeral_2_eq_2)
  have s: "snd (check_rate_limit encoding k request clk w) = after_trips (Suc i) w"
    using assms(2-4)
    by (auto simp: check_rate_limit_def get_window_sum_eq Let_def split_beta less_Suc_eq
          numeral_3_eq_3 numeral_2_eq_2)
  have "chat_completions encoding isoformat request authorization clk w
          = (Raised RedisError, snd (check_rate_limit encoding k request clk w))"
    by (rule chat_completions_read_fault [OF assms(1) check_rate_limit_fault(1) [OF f]])
  then show ?thesis by (simp only: s)
qed

theorem read_failure_propagates_witness:
  "chat_completions char_encoding plain_isoformat (sample_request None)
     (Some ''Bearer test-key-1'') (sample_clock 1700000000000000) (fresh_world [False, True, False])
   = (Raised RedisError, after_trips 2 (fresh_world [False, True, False]))"
  using read_failure_propagates [of "Some ''Bearer test-key-1''" "''test-key-1''" 1
      "fresh_world [False, True, False]" char_encoding plain_isoformat "sample_request None"
      "sample_clock 1700000000000000"]
  by (simp add: faulty_def)

text \<open>
  \<^bold>\<open>C5\<close> as stated fails. The first read fails once and every later round trip would
  succeed, so one retry would let the request through (status 200); and when the next
  round trip fails too, the answer should be 503. In both runs the handler raises after
  a single round trip, leaving the rest of the schedule untouched.
\<close>

theorem no_retry_counterexample:
  "chat_completions char_encoding plain_isoformat (sample_request None)
     (Some ''Bearer test-key-1'') (sample_clock 1700000000000000) (fresh_world [True])
   = (Raised RedisError, fresh_world [])
   \<and> chat_completions char_encoding plain_isoformat (sample_request None)
     (Some ''Bearer test-key-1'') (sample_clock 1700000000000000) (fresh_world [True, True])
   = (Raised RedisError, fresh_world [True])"
proof -
  have 1: "faulty 0 (fresh_world [True])" "faulty 0 (fresh_world [True, True])"
    by (simp_all add: faulty_def)
  have 2: "after_trips (Suc 0) (fresh_world [True]) = fresh_world []"
    "after_trips (Suc 0) (fresh_world [True, True]) = fresh_world [True]"
    by (simp_all add: after_trips_def fresh_world_def)
  have [simp]: "snd (check_rate_limit encoding k request clk w) = after_trips (Suc 0) w"
    if "faulty 0 w" for encoding k and request :: ChatCompletionRequest
      and clk :: request_clock and w
    using that by (simp add: check_rate_limit_def get_window_sum_eq Let_def)
  show ?thesis
    using 1 by (simp add: chat_completions_read_fault check_rate_limit_fault 2)
qed

section \<open>The \<open>Retry-After\<close> header\<close>

lemma retry_after_header:
  "map_of (get_rate_limit_headers isoformat k info now) ''Retry-After''
     = Some (str_int (int_float (total_seconds (window_end info - now))))"
  by (simp add: get_rate_limit_headers_def Let_def)

lemma window_end_snapshot:
  "window_end (snapshot k clk r)
     = fromtimestamp (local_offset clk) ((get_current_segment (t_window clk) + 1) * segment_size)"
  by (simp add: snapshot_def get_window_segments_def Let_def)

lemma segment_end_near:
  "(get_current_segment t + 1) * segment_size * usec_per_sec - t < (segment_size + 1) * usec_per_sec"
proof -
  let ?s = "int_time t"
  have "(?s div 5 + 1) * 5 \<le> ?s + 5" using div_bounds(1) [of 5 ?s] by simp
  then have "(?s div 5 + 1) * 5 * usec_per_sec \<le> (?s + 5) * usec_per_sec"
    using usec_per_sec_pos by (simp only: mult_le_cancel_right_pos)
  moreover have "?s * usec_per_sec < t + usec_per_sec"
    by (rule int_time_bounds)
  ultimately show ?thesis
    by (simp add: get_current_segment_def segment_size_val algebra_simps)
qed

text \<open>
  \<^bold>\<open>C3\<close> (as the code has it). Let \<open>now\<close> be the value of \<open>datetime.now()\<close>, not
  past \<open>window_end\<close> and less than \<open>2 ^ 34\<close> seconds before it (beyond that the float
  that \<open>total_seconds()\<close> returns may be a whole second off). Then the \<open>Retry-After\<close>
  header is the number of whole seconds in \<open>window_end - now\<close>, rounded down: it is not
  negative, and it is 0 exactly when less than a second is left. For the snapshot of a
  check and a \<open>now\<close> read when the clock is at \<open>e\<close>, not before the clock reading the
  snapshot's window was computed from, and with the local UTC offset in force at \<open>e\<close>
  the same as at the window's end, it is at most \<open>segment_size\<close>, hence at most
  \<open>window_size\<close>.
\<close>

theorem retry_after_rounds_down:
  assumes "now \<le> window_end info" and "window_end info - now < 2 ^ 34 * usec_per_sec"
  shows "map_of (get_rate_limit_headers isoformat k info now) ''Retry-After''
           = Some (str_int ((window_end info - now) div usec_per_sec))
       \<and> 0 \<le> (window_end info - now) div usec_per_sec
       \<and> ((window_end info - now) div usec_per_sec = 0 \<longleftrightarrow> window_end info - now < usec_per_sec)
       \<and> (info = snapshot k' clk r \<and> now = datetime_now (local_offset clk) e
            \<and> t_window clk \<le> e
            \<and> local_offset clk (e div usec_per_sec)
                = local_offset clk ((get_current_segment (t_window clk) + 1) * segment_size)
          \<longrightarrow> (window_end info - now) div usec_per_sec \<le> segment_size
            \<and> segment_size \<le> window_size)"
proof -
  let ?d = "window_end info - now"
  note p = usec_per_sec_pos
  have d: "0 \<le> ?d" using assms by simp
  have "int_float (total_seconds ?d) = trunc_div ?d usec_per_sec"
    using d assms(2) by (intro int_total_seconds) simp
  then have 1: "map_of (get_rate_limit_headers isoformat k info now) ''Retry-After''
           = Some (str_int (?d div usec_per_sec))"
    using d by (simp add: retry_after_header trunc_div_def)
  have 2: "0 \<le> ?d div usec_per_sec"
    using d p by (simp add: pos_imp_zdiv_nonneg_iff)
  have 3: "?d div usec_per_sec = 0 \<longleftrightarrow> ?d < usec_per_sec"
    using d p by (auto simp: zdiv_eq_0_iff)
  have 4: "?d div usec_per_sec \<le> segment_size \<and> segment_size \<le> window_size"
    if i: "info = snapshot k' clk r" and n: "now = datetime_now (local_offset clk) e"
      and t: "t_window clk \<le> e"
      and o: "local_offset clk (e div usec_per_sec)
                = local_offset clk ((get_current_segment (t_window clk) + 1) * segment_size)"
  proof -
    have "?d = (get_current_segment (t_window clk) + 1) * segment_size * usec_per_sec - e"
      by (simp add: i n window_end_snapshot fromtimestamp_def datetime_now_def o algebra_simps)
    then have "?d < (segment_size + 1) * usec_per_sec"
      using segment_end_near [of "t_window clk"] t by simp
    then have "?d div usec_per_sec < segment_size + 1"
      by (rule div_less_of_less_mult [OF p])
    then show ?thesis by (simp add: segment_size_val)
  qed
  show ?thesis using 1 2 3 4 by blast
qed

lemma window_end_sample:
  "window_end (snapshot k (sample_clock 1700000000000000) r) = 1700000005000000"
  by (simp add: window_end_snapshot fromtimestamp_def get_current_segment_def int_time_def
      trunc_div_def usec_per_sec_def segment_size_val sample_clock_def)

theorem retry_after_rounds_down_witness:
  "map_of (get_rate_limit_headers plain_isoformat ''test-key-1''
             (snapshot ''test-key-1'' (sample_clock 1700000000000000) empty_redis)
             1700000002500000) ''Retry-After'' = Some ''2''
   \<and> (1700000005000000 - 1700000002500000) div usec_per_sec \<le> segment_size
   \<and> segment_size \<le> window_size"
proof -
  have s: "str_int 2 = ''2''" by code_simp
  have t: "t_window (sample_clock 1700000000000000) = 1700000000000000"
    "local_offset (sample_clock 1700000000000000) = (\<lambda>s. 0)"
    by (simp_all add: sample_clock_def)
  show ?thesis
    using retry_after_rounds_down [of 1700000002500000
        "snapshot ''test-key-1'' (sample_clock 1700000000000000) empty_redis"
        plain_isoformat "''test-key-1''" "''test-key-1''" "sample_clock 1700000000000000"
        empty_redis 1700000002500000]
    by (simp add: window_end_sample t s datetime_now_def) (simp add: usec_per_sec_def s)
qed

text \<open>
  \<^bold>\<open>C3\<close> as stated fails. With 2.5 seconds left the header is \<open>2\<close>, where
  \<open>ceil(window_end - now)\<close> is 3; and 2 seconds after \<open>window_end\<close> the header is
  \<open>-2\<close>, where the clamped value is 0. Nor is the header at most \<open>window_size\<close>
  always: \<open>window_end\<close> and \<open>datetime.now()\<close> are local wall-clock readings, and on a
  host in New York a check made 2 seconds before the clocks went forward on 2024-03-10
  is answered with \<open>Retry-After: 3602\<close>.
\<close>

theorem retry_after_counterexample:
  "map_of (get_rate_limit_headers plain_isoformat ''test-key-1''
             (snapshot ''test-key-1'' (sample_clock 1700000000000000) empty_redis)
             1700000002500000) ''Retry-After'' = Some ''2''
   \<and> retry_after_as_specified
         (snapshot ''test-key-1'' (sample_clock 1700000000000000) empty_redis)
         1700000002500000 = 3
   \<and> map_of (get_rate_limit_headers plain_isoformat ''test-key-1''
             (snapshot ''test-key-1'' (sample_clock 1700000000000000) empty_redis)
             1700000007000000) ''Retry-After'' = Some ''-2''
   \<and> retry_after_as_specified
         (snapshot ''test-key-1'' (sample_clock 1700000000000000) empty_redis)
         1700000007000000 = 0
   \<and> map_of (get_rate_limit_headers plain_isoformat ''test-key-1''
             (snapshot ''test-key-1''
                ((sample_clock 1710053998000000)\<lparr>local_offset := new_york\<rparr>) empty_redis)
             (datetime_now new_york 1710053998000000)) ''Retry-After'' = Some ''3602''
   \<and> window_size = 60"
proof -
  have s: "str_int 2 = ''2''" "str_int (- 2) = ''-2''" "str_int 3602 = ''3602''"
    by code_simp+
  have f: "int_float (total_seconds 2500000) = 2" "int_float (total_seconds (- 2000000)) = - 2"
    "int_float (total_seconds 3602000000) = 3602"
    by (simp_all add: int_total_seconds usec_per_sec_def trunc_div_def)
  have w: "window_end (snapshot ''test-key-1''
             ((sample_clock 1710053998000000)\<lparr>local_offset := new_york\<rparr>) empty_redis)
           = 1710039600000000"
    by (simp add: window_end_snapshot fromtimestamp_def get_current_segment_def int_time_def
        trunc_div_def usec_per_sec_def segment_size_val sample_clock_def new_york_def)
  have n: "datetime_now new_york 1710053998000000 = 1710035998000000"
    by (simp add: datetime_now_def new_york_def usec_per_sec_def)
  show ?thesis
    by (simp add: retry_after_header retry_after_as_specified_def window_end_sample w n f s
        segment_size_val)
      (simp add: usec_per_sec_def)
qed

section \<open>Recording raises each window sum by the amount recorded\<close>

lemma sum_window_bump:
  "(\<Sum>i = c - segments + 1..c. field_val (bump c d h) i)
     = (\<Sum>i = c - segments + 1..c. field_val h i) + d"
proof -
  have "c \<in> {c - segments + 1..c}" by (simp add: segment_size_val)
  then show ?thesis
    using sum_one_changed [of "{c - segments + 1..c}" c "field_val h" d]
    by (simp add: field_val_bump [abs_def])
qed

lemma stored_recorded:
  assumes "t_rec \<le> t" "t \<le> t_rec + window_size * 2 * usec_per_sec"
  shows "stored (recorded k a b t_rec r) t (rpm_key (get_redis_keys k))
     = (if fits (rpm_key (get_redis_keys k)) 1 t_rec r
        then bump (get_current_segment t_rec) 1 (stored r t_rec (rpm_key (get_redis_keys k)))
        else stored r t_rec (rpm_key (get_redis_keys k)))"
    and "stored (recorded k a b t_rec r) t (input_tpm_key (get_redis_keys k))
     = (if fits (input_tpm_key (get_redis_keys k)) a t_rec r
        then bump (get_current_segment t_rec) a (stored r t_rec (input_tpm_key (get_redis_keys k)))
        else stored r t_rec (input_tpm_key (get_redis_keys k)))"
    and "stored (recorded k a b t_rec r) t (output_tpm_key (get_redis_keys k))
     = (if fits (output_tpm_key (get_redis_keys k)) b t_rec r
        then bump (get_current_segment t_rec) b (stored r t_rec (output_tpm_key (get_redis_keys k)))
        else stored r t_rec (output_tpm_key (get_redis_keys k)))"
  by (simp_all add: stored_def [of "recorded k a b t_rec r"] live_recorded [OF assms])
     (simp_all add: stored_def)

lemma stored_recorded_other:
  assumes "key \<noteq> rpm_key (get_redis_keys k)" "key \<noteq> input_tpm_key (get_redis_keys k)"
    "key \<noteq> output_tpm_key (get_redis_keys k)"
  shows "stored (recorded k a b t_rec r) t key = stored r t key"
  using assms by (simp add: stored_def live_recorded_other)

lemma window_total_bumped:
  assumes "stored r' t key = (if ok then bump (get_current_segment t_rec) d (stored r t_rec key)
                              else stored r t_rec key)"
    and "get_current_segment t = get_current_segment t_rec"
  shows "window_total key t r' = window_total key t_rec r + (if ok then d else 0)"
  by (simp add: window_total_stored assms sum_window_bump)

lemma window_total_recorded:
  assumes "get_current_segment t = get_current_segment t_rec" "t_rec \<le> t"
  shows "window_total (rpm_key (get_redis_keys k)) t (recorded k a b t_rec r)
           = window_total (rpm_key (get_redis_keys k)) t_rec r
             + (if fits (rpm_key (get_redis_keys k)) 1 t_rec r then 1 else 0)"
    and "window_total (input_tpm_key (get_redis_keys k)) t (recorded k a b t_rec r)
           = window_total (input_tpm_key (get_redis_keys k)) t_rec r
             + (if fits (input_tpm_key (get_redis_keys k)) a t_rec r then a else 0)"
    and "window_total (output_tpm_key (get_redis_keys k)) t (recorded k a b t_rec r)
           = window_total (output_tpm_key (get_redis_keys k)) t_rec r
             + (if fits (output_tpm_key (get_redis_keys k)) b t_rec r then b else 0)"
  using stored_recorded [OF assms(2) same_segment_close [OF assms(1)]] assms(1)
  by (simp_all only: window_total_bumped)

lemma window_total_recorded_other:
  assumes "key \<noteq> rpm_key (get_redis_keys k)" "key \<noteq> input_tpm_key (get_redis_keys k)"
    "key \<noteq> output_tpm_key (get_redis_keys k)"
  shows "window_total key t (recorded k a b t_rec r) = window_total key t r"
  using assms by (simp add: window_total_eq live_recorded_other)

lemma counter_recorded:
  "counter (recorded k a b t r) t (rpm_key (get_redis_keys k))
     = counter r t (rpm_key (get_redis_keys k))
       + (if fits (rpm_key (get_redis_keys k)) 1 t r then 1 else 0)"
  "counter (recorded k a b t r) t (input_tpm_key (get_redis_keys k))
     = counter r t (input_tpm_key (get_redis_keys k))
       + (if fits (input_tpm_key (get_redis_keys k)) a t r then a else 0)"
  "counter (recorded k a b t r) t (output_tpm_key (get_redis_keys k))
     = counter r t (output_tpm_key (get_redis_keys k))
       + (if fits (output_tpm_key (get_redis_keys k)) b t r then b else 0)"
proof -
  have "t \<le> t + window_size * 2 * usec_per_sec"
    using usec_per_sec_pos by (simp add: segment_size_val)
  note s = stored_recorded [OF order_refl this]
  show "counter (recorded k a b t r) t (rpm_key (get_redis_keys k))
     = counter r t (rpm_key (get_redis_keys k))
       + (if fits (rpm_key (get_redis_keys k)) 1 t r then 1 else 0)"
    "counter (recorded k a b t r) t (input_tpm_key (get_redis_keys k))
     = counter r t (input_tpm_key (get_redis_keys k))
       + (if fits (input_tpm_key (get_redis_keys k)) a t r then a else 0)"
    "counter (recorded k a b t r) t (output_tpm_key (get_redis_keys k))
     = counter r t (output_tpm_key (get_redis_keys k))
       + (if fits (output_tpm_key (get_redis_keys k)) b t r then b else 0)"
    by (simp_all add: counter_def s field_val_bump)
qed

section \<open>Cleaning tasks delete nothing a window sum reads\<close>

lemma map_of_filter_key:
  "map_of (filter (\<lambda>(f, v). Q f) h) x = (if Q x then map_of h x else None)"
  by (induction h) auto

lemma field_val_filter:
  "field_val (filter (\<lambda>(f, v). f \<notin> set F) h) i
     = (if str_int i \<in> set F then 0 else field_val h i)"
  by (simp add: field_val_def map_of_filter_key)

lemma stored_HDEL_other: "key' \<noteq> key \<Longrightarrow> stored (HDEL key F t_del r) t key' = stored r t key'"
  by (simp add: stored_def live_HDEL_other)

lemma stored_HDEL_same:
  "stored (HDEL key F t_del r) t key
     = (if live r t_del key = None then stored r t key
        else filter (\<lambda>(f, v). f \<notin> set F) (stored r t key))"
  by (auto simp: HDEL_def live_def stored_def Let_def split: option.splits if_splits)

lemma field_val_HDEL:
  "field_val (stored (HDEL key F t_del r) t key') i = field_val (stored r t key') i
   \<or> (str_int i \<in> set F \<and> field_val (stored (HDEL key F t_del r) t key') i = 0)"
  by (cases "key' = key") (simp_all add: stored_HDEL_other stored_HDEL_same field_val_filter)

lemma old_fields_window:
  assumes "old_fields t F" "get_current_segment t - segments + 1 \<le> i"
  shows "str_int i \<notin> set F"
proof
  assume "str_int i \<in> set F"
  with assms(1) obtain j where "py_int (str_int i) = Some j"
    "j < get_current_segment t - segments + 1"
    by (auto simp: old_fields_def)
  with assms(2) show False by (simp add: py_int_str_int)
qed

lemma old_fields_mono: "old_fields now F \<Longrightarrow> now \<le> t \<Longrightarrow> old_fields t F"
  using get_current_segment_mono [of now t] by (fastforce simp: old_fields_def)

lemma window_total_HDEL:
  assumes "old_fields t F"
  shows "window_total key' t (HDEL key F t_del r) = window_total key' t r"
proof -
  have "field_val (stored (HDEL key F t_del r) t key') i = field_val (stored r t key') i"
    if "i \<in> {get_current_segment t - segments + 1..get_current_segment t}" for i
    using field_val_HDEL [of key F t_del r t key' i] old_fields_window [OF assms, of i] that
    by auto
  then show ?thesis by (simp add: window_total_stored)
qed

lemma sane_HDEL: "sane r t \<Longrightarrow> sane (HDEL key F t_del r) t"
  unfolding sane_def
proof (intro allI conjI impI)
  fix key' i
  assume s: "\<forall>key i. 0 \<le> field_val (stored r t key) i
      \<and> (get_current_segment t < i \<longrightarrow> field_val (stored r t key) i = 0)"
  show "0 \<le> field_val (stored (HDEL key F t_del r) t key') i"
    using s field_val_HDEL [of key F t_del r t key' i] by auto
  show "field_val (stored (HDEL key F t_del r) t key') i = 0" if "get_current_segment t < i"
    using s that field_val_HDEL [of key F t_del r t key' i] by auto
qed

lemma clean_old_segments_effect:
  "tasks (snd (clean_old_segments key now t_del w)) = tasks w
   \<and> (db (snd (clean_old_segments key now t_del w)) = db w
      \<or> (\<exists>F. old_fields now F \<and> db (snd (clean_old_segments key now t_del w))
              = HDEL key F t_del (db w)))"
proof -
  let ?F = "filter (\<lambda>field. case py_int field of
                Some segment \<Rightarrow> segment < fst (get_window_segments now) | None \<Rightarrow> False)
              (HKEYS key now (db w))"
  have "old_fields now ?F"
    by (auto simp: old_fields_def get_window_segments_def Let_def split: option.splits)
  then show ?thesis
    by (auto simp: clean_old_segments_def round_trip_eq Let_def split: bool.splits)
qed

section \<open>Record, then read\<close>

lemma clean_event_db:
  assumes "is_clean ev"
  shows "db (run_event encoding isoformat ev w) = db w
     \<or> (\<exists>key F t_del. old_fields (started ev) F
          \<and> db (run_event encoding isoformat ev w) = HDEL key F t_del (db w))"
proof (cases ev)
  case (Request a r c)
  with assms show ?thesis by simp
next
  case (Clean i now t_del)
  show ?thesis
  proof (cases "i < length (tasks w)")
    case True
    let ?w = "w\<lparr>tasks := take i (tasks w) @ drop (Suc i) (tasks w)\<rparr>"
    show ?thesis
      using clean_old_segments_effect [of "tasks w ! i" now t_del ?w] True Clean by auto
  next
    case False
    with Clean show ?thesis by simp
  qed
qed

lemma window_total_clean_event:
  assumes "is_clean ev" "started ev \<le> t"
  shows "window_total key t (db (run_event encoding isoformat ev w)) = window_total key t (db w)"
  using clean_event_db [OF assms(1), of encoding isoformat w] assms(2)
  by (auto simp: window_total_HDEL old_fields_mono)

lemma window_total_cleans:
  assumes "\<forall>ev \<in> set evs. is_clean ev \<and> started ev \<le> t"
  shows "window_total key t (db (run encoding isoformat evs w)) = window_total key t (db w)"
  using assms unfolding run_def
  by (induction evs arbitrary: w) (simp_all add: window_total_clean_event)

lemma faults_clean_old_segments:
  "faults w = [] \<Longrightarrow> faults (snd (clean_old_segments key now t_del w)) = []"
  by (simp add: clean_old_segments_def round_trip_eq Let_def faulty_def)

lemma faults_record_usage:
  "faults w = [] \<Longrightarrow> faults (snd (record_usage k a b now w)) = []"
  by (simp add: record_usage_eq)

lemma faults_clean_event:
  "is_clean ev \<Longrightarrow> faults w = [] \<Longrightarrow> faults (run_event encoding isoformat ev w) = []"
  by (cases ev) (simp_all add: faults_clean_old_segments)

text \<open>
  \<^bold>\<open>C4\<close> (as the code has it). When the increments 1, \<open>a\<close> and \<open>b\<close> and the
  three counters they raise stay within the signed 64-bit range of the store,
  \<open>record_usage(api_key, a, b)\<close> executes its pipeline without error, and each of the
  three window sums read in the same segment, at or after the record, is the sum just
  before the record plus 1, \<open>a\<close> and \<open>b\<close>; this also when cleaning tasks (the only other
  writers \<open>record_usage\<close> itself starts) have run in between.
\<close>

theorem record_then_window_sum:
  assumes "get_current_segment t_read = get_current_segment t_rec" and "t_rec \<le> t_read"
    and "\<not> faulty 0 w"
    and "fits (rpm_key (get_redis_keys k)) 1 t_rec (db w)"
    and "fits (input_tpm_key (get_redis_keys k)) a t_rec (db w)"
    and "fits (output_tpm_key (get_redis_keys k)) b t_rec (db w)"
    and "\<forall>ev \<in> set evs. is_clean ev \<and> started ev \<le> t_read"
    and "w' = run encoding isoformat evs (snd (record_usage k a b t_rec w))"
    and "\<not> faulty 0 w'"
  shows "fst (record_usage k a b t_rec w) = Inr ()
    \<and> fst (get_window_sum (rpm_key (get_redis_keys k)) t_read w')
        = Inr (window_total (rpm_key (get_redis_keys k)) t_rec (db w) + 1)
    \<and> fst (get_window_sum (input_tpm_key (get_redis_keys k)) t_read w')
        = Inr (window_total (input_tpm_key (get_redis_keys k)) t_rec (db w) + a)
    \<and> fst (get_window_sum (output_tpm_key (get_redis_keys k)) t_read w')
        = Inr (window_total (output_tpm_key (get_redis_keys k)) t_rec (db w) + b)"
proof -
  have r: "fst (record_usage k a b t_rec w) = Inr ()"
    "db (snd (record_usage k a b t_rec w)) = recorded k a b t_rec (db w)"
    using assms(3-6) by (simp_all add: record_usage_eq)
  have "window_total key t_read (db w') = window_total key t_read (recorded k a b t_rec (db w))"
    for key
    using window_total_cleans [OF assms(7), of key encoding isoformat
        "snd (record_usage k a b t_rec w)"] assms(8) r(2) by simp
  then show ?thesis
    using r(1) assms(9) assms(4-6) window_total_recorded [OF assms(1,2)]
    by (simp add: get_window_sum_eq)
qed

theorem record_then_window_sum_witness:
  "fst (get_window_sum (rpm_key (get_redis_keys ''test-key-1'')) 1700000003000000
         (run char_encoding plain_isoformat [Clean 0 1700000001000000 1700000002000000]
            (snd (record_usage ''test-key-1'' 12 70 1700000000000000 (fresh_world [])))))
     = Inr 1
   \<and> fst (get_window_sum (input_tpm_key (get_redis_keys ''test-key-1'')) 1700000003000000
         (run char_encoding plain_isoformat [Clean 0 1700000001000000 1700000002000000]
            (snd (record_usage ''test-key-1'' 12 70 1700000000000000 (fresh_world [])))))
     = Inr 12
   \<and> fst (get_window_sum (output_tpm_key (get_redis_keys ''test-key-1'')) 1700000003000000
         (run char_encoding plain_isoformat [Clean 0 1700000001000000 1700000002000000]
            (snd (record_usage ''test-key-1'' 12 70 1700000000000000 (fresh_world [])))))
     = Inr 70"
proof -
  let ?evs = "[Clean 0 1700000001000000 1700000002000000]"
  let ?w' = "run char_encoding plain_isoformat ?evs
               (snd (record_usage ''test-key-1'' 12 70 1700000000000000 (fresh_world [])))"
  have s: "get_current_segment 1700000003000000 = get_current_segment 1700000000000000"
    by (simp add: get_current_segment_def int_time_def trunc_div_def usec_per_sec_def
        segment_size_val)
  have f: "\<not> faulty 0 ?w'"
    by (simp add: run_def faults_clean_event faults_record_usage del: run_event.simps)
  show ?thesis
    using record_then_window_sum [of 1700000003000000 1700000000000000 "fresh_world []"
        "''test-key-1''" 12 70 ?evs ?w' char_encoding plain_isoformat, OF s _ _ _ _ _ _ refl f]
    by (simp add: fits_def int64_def)
qed

text \<open>
  \<^bold>\<open>C4\<close> as stated fails for increments the store cannot hold. On an empty store,
  \<open>record_usage(api_key, 2 ^ 63, 0)\<close> raises \<open>ResponseError\<close>: the store refuses the
  second \<open>HINCRBY\<close> and executes the other commands of the pipeline. Read in the same
  segment, the requests in the window are then 1, the input tokens still 0, and no
  cleaning task has been created.
\<close>

theorem record_overflow_counterexample:
  "(0::int) \<le> 2 ^ 63
   \<and> fst (record_usage ''test-key-1'' (2 ^ 63) 0 1700000000000000 (fresh_world []))
       = Inl ResponseError
   \<and> fst (get_window_sum (rpm_key (get_redis_keys ''test-key-1'')) 1700000000000000
            (snd (record_usage ''test-key-1'' (2 ^ 63) 0 1700000000000000 (fresh_world []))))
       = Inr 1
   \<and> fst (get_window_sum (input_tpm_key (get_redis_keys ''test-key-1'')) 1700000000000000
            (snd (record_usage ''test-key-1'' (2 ^ 63) 0 1700000000000000 (fresh_world []))))
       = Inr 0
   \<and> tasks (snd (record_usage ''test-key-1'' (2 ^ 63) 0 1700000000000000 (fresh_world []))) = []"
proof -
  let ?T = "1700000000000000 :: int"
  define A :: int where "A = 2 ^ 63"
  have A: "0 \<le> A" "\<not> int64 A" by (simp_all add: A_def int64_def)
  note w = window_total_recorded [of ?T ?T "''test-key-1''" A 0 empty_redis, OF refl order_refl]
  have "0 \<le> A
   \<and> fst (record_usage ''test-key-1'' A 0 ?T (fresh_world [])) = Inl ResponseError
   \<and> fst (get_window_sum (rpm_key (get_redis_keys ''test-key-1'')) ?T
            (snd (record_usage ''test-key-1'' A 0 ?T (fresh_world [])))) = Inr 1
   \<and> fst (get_window_sum (input_tpm_key (get_redis_keys ''test-key-1'')) ?T
            (snd (record_usage ''test-key-1'' A 0 ?T (fresh_world [])))) = Inr 0
   \<and> tasks (snd (record_usage ''test-key-1'' A 0 ?T (fresh_world []))) = []"
    using A by (simp add: record_usage_eq get_window_sum_eq w) (simp add: fits_def int64_def)
  then show ?thesis unfolding A_def .
qed

section \<open>Windows only lose counts as time passes\<close>

lemma stored_later:
  "t \<le> t' \<Longrightarrow> stored r t' key = stored r t key \<or> stored r t' key = []"
  by (auto simp: stored_def live_def split: option.splits)

lemma sane_mono:
  assumes "sane r t" "t \<le> t'"
  shows "sane r t'"
  unfolding sane_def
proof (intro allI)
  fix key i
  have c: "get_current_segment t \<le> get_current_segment t'"
    by (rule get_current_segment_mono [OF assms(2)])
  have s: "0 \<le> field_val (stored r t key) i"
    "get_current_segment t < i \<Longrightarrow> field_val (stored r t key) i = 0"
    using assms(1) by (simp_all add: sane_def)
  from stored_later [OF assms(2), of r key]
  show "0 \<le> field_val (stored r t' key) i
      \<and> (get_current_segment t' < i \<longrightarrow> field_val (stored r t' key) i = 0)"
  proof
    assume "stored r t' key = stored r t key"
    then show ?thesis using s c by auto
  next
    assume "stored r t' key = []"
    then show ?thesis by simp
  qed
qed

lemma sum_window_mono:
  fixes f :: "int \<Rightarrow> int"
  assumes nn: "\<And>i. 0 \<le> f i" and z: "\<And>i. c < i \<Longrightarrow> f i = 0" and le: "c \<le> c'"
  shows "(\<Sum>i = c' - n..c'. f i) \<le> (\<Sum>i = c - n..c. f i)"
proof -
  have "(\<Sum>i = c' - n..c'. f i) = (\<Sum>i = c' - n..c. f i)"
    using z le by (intro sum.mono_neutral_right) auto
  also have "\<dots> \<le> (\<Sum>i = c - n..c. f i)"
    using nn le by (intro sum_mono2) auto
  finally show ?thesis .
qed

lemma window_total_mono:
  assumes "sane r t" "t \<le> t'"
  shows "window_total key t' r \<le> window_total key t r"
proof -
  let ?f = "field_val (stored r t key)"
  have nn: "\<And>i. 0 \<le> ?f i" and z: "\<And>i. get_current_segment t < i \<Longrightarrow> ?f i = 0"
    using assms(1) by (simp_all add: sane_def)
  have c: "get_current_segment t \<le> get_current_segment t'"
    by (rule get_current_segment_mono [OF assms(2)])
  from stored_later [OF assms(2), of r key] show ?thesis
  proof
    assume "stored r t' key = stored r t key"
    then show ?thesis
      using sum_window_mono [of ?f "get_current_segment t" "get_current_segment t'"
          "segments - 1", OF nn z c]
      by (simp add: window_total_stored algebra_simps)
  next
    assume "stored r t' key = []"
    then show ?thesis
      using nn by (simp add: window_total_stored sum_nonneg)
  qed
qed

lemma window_total_nonneg: "sane r t \<Longrightarrow> 0 \<le> window_total key t r"
  by (simp add: window_total_stored sane_def sum_nonneg)

lemma sane_recorded:
  assumes "sane r t" "0 \<le> a" "0 \<le> b"
  shows "sane (recorded k a b t r) t"
  unfolding sane_def
proof (intro allI)
  fix key i
  let ?c = "get_current_segment t"
  have s: "0 \<le> field_val (stored r t key') j" "?c < j \<Longrightarrow> field_val (stored r t key') j = 0"
    for key' j using assms(1) by (simp_all add: sane_def)
  have "t \<le> t + window_size * 2 * usec_per_sec"
    using usec_per_sec_pos by (simp add: segment_size_val)
  note st = stored_recorded [OF order_refl this]
  consider "key = rpm_key (get_redis_keys k)" | "key = input_tpm_key (get_redis_keys k)"
    | "key = output_tpm_key (get_redis_keys k)"
    | "key \<noteq> rpm_key (get_redis_keys k)" "key \<noteq> input_tpm_key (get_redis_keys k)"
      "key \<noteq> output_tpm_key (get_redis_keys k)"
    by blast
  then show "0 \<le> field_val (stored (recorded k a b t r) t key) i
      \<and> (?c < i \<longrightarrow> field_val (stored (recorded k a b t r) t key) i = 0)"
  proof cases
    case 1
    then show ?thesis using s by (simp add: st field_val_bump)
  next
    case 2
    then show ?thesis using s assms(2) by (simp add: st field_val_bump)
  next
    case 3
    then show ?thesis using s assms(3) by (simp add: st field_val_bump)
  next
    case 4
    then show ?thesis using s by (simp add: stored_recorded_other)
  qed
qed

lemma counter_bounds:
  assumes "sane r t"
  shows "0 \<le> counter r t key" and "counter r t key \<le> window_total key t r"
proof -
  let ?c = "get_current_segment t"
  let ?f = "field_val (stored r t key)"
  have nn: "\<And>i. 0 \<le> ?f i" using assms by (simp add: sane_def)
  show "0 \<le> counter r t key" by (simp add: counter_def nn)
  have "(\<Sum>i\<in>{?c}. ?f i) \<le> (\<Sum>i = ?c - segments + 1..?c. ?f i)"
    by (rule sum_mono2) (simp_all add: nn segment_size_val)
  then show "counter r t key \<le> window_total key t r"
    by (simp add: counter_def window_total_stored)
qed

section \<open>What a request does to the store\<close>

lemma limits_nonneg:
  "0 \<le> rpm (get_api_key_limits k)" "0 \<le> input_tpm (get_api_key_limits k)"
  "0 \<le> output_tpm (get_api_key_limits k)"
  by (simp_all add: get_api_key_limits_def API_KEY_LIMITS_def DEFAULT_RATE_LIMITS_def)

lemma sane_empty: "sane empty_redis t"
  by (simp add: sane_def stored_def)

lemma under_limits_empty: "under_limits empty_redis t" "output_under_limit empty_redis t"
  by (simp_all add: under_limits_def output_under_limit_def limits_nonneg)

lemma under_limits_mono:
  assumes "sane r t" "t \<le> t'"
  shows "under_limits r t \<Longrightarrow> under_limits r t'"
    and "output_under_limit r t \<Longrightarrow> output_under_limit r t'"
  using window_total_mono [OF assms] order_trans
  by (fastforce simp: under_limits_def output_under_limit_def)+

lemma fold_tokens_nonneg:
  "0 \<le> x \<Longrightarrow> 0 \<le> fold (\<lambda>message total_tokens.
      total_tokens + count_tokens encoding (role message)
        + count_tokens encoding (content message) + 4) ms (x::int)"
  by (induction ms arbitrary: x) (simp_all add: count_tokens_def)

lemma estimate_nonneg: "0 \<le> estimate_request_tokens encoding request"
  using fold_tokens_nonneg [of 0 encoding "messages request"]
  by (simp add: estimate_request_tokens_def)

lemma limits_bounded:
  "rpm (get_api_key_limits k) \<le> 100000" "input_tpm (get_api_key_limits k) \<le> 100000"
  "output_tpm (get_api_key_limits k) \<le> 100000"
  by (simp_all add: get_api_key_limits_def API_KEY_LIMITS_def DEFAULT_RATE_LIMITS_def)

lemma fits_small:
  assumes "sane r t" "window_total key t r \<le> 100000" "0 \<le> d" "d \<le> 100000"
  shows "fits key d t r"
  using counter_bounds [OF assms(1), of key] assms(2-4)
  by (simp add: fits_def int64_def)

lemma under_limits_recorded:
  assumes s: "sane r t0" and u: "under_limits r t0"
    and t: "t0 \<le> t1" "t0 \<le> t2" "t1 \<le> t_rec" "t2 \<le> t_rec"
    and a: "window_total (rpm_key (get_redis_keys k)) t1 r + 1 \<le> rpm (get_api_key_limits k)"
      "window_total (input_tpm_key (get_redis_keys k)) t2 r + a
         \<le> input_tpm (get_api_key_limits k)"
  shows "under_limits (recorded k a b t_rec r) t_rec"
  unfolding under_limits_def
proof (intro allI)
  fix k'
  have t0: "t0 \<le> t_rec" using t by simp
  have ur: "under_limits r t_rec" by (rule under_limits_mono(1) [OF s t0 u])
  show "window_total (rpm_key (get_redis_keys k')) t_rec (recorded k a b t_rec r)
          \<le> rpm (get_api_key_limits k')
      \<and> window_total (input_tpm_key (get_redis_keys k')) t_rec (recorded k a b t_rec r)
          \<le> input_tpm (get_api_key_limits k')"
  proof (cases "k' = k")
    case True
    have "window_total (rpm_key (get_redis_keys k)) t_rec r
            \<le> window_total (rpm_key (get_redis_keys k)) t1 r"
      by (rule window_total_mono [OF sane_mono [OF s t(1)] t(3)])
    moreover have "window_total (input_tpm_key (get_redis_keys k)) t_rec r
            \<le> window_total (input_tpm_key (get_redis_keys k)) t2 r"
      by (rule window_total_mono [OF sane_mono [OF s t(2)] t(4)])
    moreover have "window_total (rpm_key (get_redis_keys k)) t_rec r \<le> rpm (get_api_key_limits k)"
      "window_total (input_tpm_key (get_redis_keys k)) t_rec r \<le> input_tpm (get_api_key_limits k)"
      using ur by (simp_all add: under_limits_def)
    ultimately show ?thesis
      using a True by (simp add: window_total_recorded)
  next
    case False
    then show ?thesis
      using ur by (simp add: window_total_recorded_other under_limits_def)
  qed
qed

lemma output_under_limit_recorded:
  assumes s: "sane r t0" and u: "output_under_limit r t0"
    and t: "t0 \<le> t_out" "t_out \<le> t_rec"
    and a: "window_total (output_tpm_key (get_redis_keys k)) t_out r + res
         \<le> output_tpm (get_api_key_limits k)"
    and b: "fits (output_tpm_key (get_redis_keys k)) b t_rec r \<Longrightarrow> b \<le> res"
  shows "output_under_limit (recorded k a b t_rec r) t_rec"
  unfolding output_under_limit_def
proof (intro allI)
  fix k'
  have t0: "t0 \<le> t_rec" using t by simp
  have ur: "output_under_limit r t_rec" by (rule under_limits_mono(2) [OF s t0 u])
  show "window_total (output_tpm_key (get_redis_keys k')) t_rec (recorded k a b t_rec r)
          \<le> output_tpm (get_api_key_limits k')"
  proof (cases "k' = k")
    case True
    have "window_total (output_tpm_key (get_redis_keys k)) t_rec r
            \<le> window_total (output_tpm_key (get_redis_keys k)) t_out r"
      by (rule window_total_mono [OF sane_mono [OF s t(1)] t(2)])
    moreover have "window_total (output_tpm_key (get_redis_keys k)) t_rec r
            \<le> output_tpm (get_api_key_limits k)"
      using ur by (simp add: output_under_limit_def)
    ultimately show ?thesis
      using a b True by (auto simp: window_total_recorded)
  next
    case False
    then show ?thesis
      using ur by (simp add: window_total_recorded_other output_under_limit_def)
  qed
qed

lemma chat_completions_db:
  "db (snd (chat_completions encoding isoformat request authorization clk w)) = db w
   \<or> (\<exists>k. window_total (rpm_key (get_redis_keys k)) (t_rpm clk) (db w) + 1
              \<le> rpm (get_api_key_limits k)
          \<and> window_total (input_tpm_key (get_redis_keys k)) (t_input_tpm clk) (db w)
               + estimate_request_tokens encoding request \<le> input_tpm (get_api_key_limits k)
          \<and> window_total (output_tpm_key (get_redis_keys k)) (t_output_tpm clk) (db w)
               + output_reservation request \<le> output_tpm (get_api_key_limits k)
          \<and> db (snd (chat_completions encoding isoformat request authorization clk w))
              = recorded k (estimate_request_tokens encoding request)
                  (count_tokens encoding (generate_mock_content request (pick clk)))
                  (t_record clk) (db w)
          \<and> (fits (rpm_key (get_redis_keys k)) 1 (t_record clk) (db w)
               \<and> fits (input_tpm_key (get_redis_keys k))
                    (estimate_request_tokens encoding request) (t_record clk) (db w)
               \<and> fits (output_tpm_key (get_redis_keys k))
                    (count_tokens encoding (generate_mock_content request (pick clk)))
                    (t_record clk) (db w)
              \<longrightarrow> (\<exists>hs body. fst (chat_completions encoding isoformat request authorization clk w)
                     = JSONResponse 200 hs body)))"
proof (cases "extract_api_key authorization")
  case (Inl r)
  then show ?thesis by (simp add: chat_completions_unauthorized)
next
  case (Inr k)
  show ?thesis
  proof (cases "faulty 0 w \<or> faulty 1 w \<or> faulty 2 w")
    case True
    have "fst (check_rate_limit encoding k request clk w) = Inl RedisError"
      by (rule check_rate_limit_fault(1) [OF True])
    then have "chat_completions encoding isoformat request authorization clk w
        = (Raised RedisError, snd (check_rate_limit encoding k request clk w))"
      by (rule chat_completions_read_fault [OF Inr])
    moreover have "db (snd (check_rate_limit encoding k request clk w)) = db w"
      by (rule check_rate_limit_fault(2) [OF True])
    ultimately show ?thesis by simp
  next
    case False
    then have c: "check_rate_limit encoding k request clk w
      = (Inr (rpm_used (snapshot k clk (db w)) + 1 \<le> rpm_limit (snapshot k clk (db w))
           \<and> input_tpm_used (snapshot k clk (db w)) + estimate_request_tokens encoding request
               \<le> input_tpm_limit (snapshot k clk (db w))
           \<and> output_tpm_used (snapshot k clk (db w)) + output_reservation request
               \<le> output_tpm_limit (snapshot k clk (db w)),
           snapshot k clk (db w)), after_trips 3 w)"
      (is "_ = (Inr (?A, _), _)")
      by (simp add: check_rate_limit_ok)
    show ?thesis
    proof (cases ?A)
      case True
      with c have "check_rate_limit encoding k request clk w
          = (Inr (True, snapshot k clk (db w)), after_trips 3 w)" by simp
      note ad = chat_completions_admitted [OF Inr this, of isoformat]
      from True show ?thesis
        by (cases "faulty 0 (after_trips 3 w)") (auto simp: ad snapshot_def)
    next
      case no: False
      with c have "check_rate_limit encoding k request clk w
          = (Inr (False, snapshot k clk (db w)), after_trips 3 w)" by simp
      then have "chat_completions encoding isoformat request authorization clk w
           = (JSONResponse 429
                (get_rate_limit_headers isoformat k (snapshot k clk (db w)) (t_headers clk))
                (Rate_limit_error ''Rate limit exceeded'' ''rate_limit_exceeded''
                   None ''rate_limit_exceeded''), after_trips 3 w)"
        by (rule chat_completions_rejected [OF Inr])
      then show ?thesis by simp
    qed
  qed
qed

section \<open>Sequential requests stay within the limits\<close>

lemma request_step:
  fixes encoding :: "string \<Rightarrow> nat list" and isoformat :: "datetime \<Rightarrow> string"
  assumes s: "sane (db w) t0" and u: "under_limits (db w) t0"
    and t: "sorted (t0 # event_times (Request authorization request clk))"
  defines "w' \<equiv> run_event encoding isoformat (Request authorization request clk) w"
  shows "sane (db w') (t_record clk)" and "under_limits (db w') (t_record clk)"
    and "output_under_limit (db w) t0 \<Longrightarrow>
           (served encoding isoformat (Request authorization request clk) w
              \<longrightarrow> modest encoding (Request authorization request clk)) \<Longrightarrow>
           output_under_limit (db w') (t_record clk)"
proof -
  have le: "t0 \<le> t_rpm clk" "t0 \<le> t_input_tpm clk" "t0 \<le> t_output_tpm clk"
    "t_rpm clk \<le> t_record clk" "t_input_tpm clk \<le> t_record clk"
    "t_output_tpm clk \<le> t_record clk" "t0 \<le> t_record clk"
    using t by simp_all
  let ?a = "estimate_request_tokens encoding request"
  let ?b = "count_tokens encoding (generate_mock_content request (pick clk))"
  have b: "0 \<le> ?b" by (simp add: count_tokens_def)
  note c = chat_completions_db [of encoding isoformat request authorization clk w]
  have sr: "sane (db w) (t_record clk)" by (rule sane_mono [OF s le(7)])
  have ur: "under_limits (db w) (t_record clk)" by (rule under_limits_mono(1) [OF s le(7) u])
  have sa: "sane (recorded k ?a ?b (t_record clk) (db w)) (t_record clk)" for k
    by (rule sane_recorded [OF sr estimate_nonneg b])
  show "sane (db w') (t_record clk)"
    using c sr sa by (auto simp: w'_def)
  show "under_limits (db w') (t_record clk)"
    using c ur under_limits_recorded [OF s u le(1,2,4,5)]
    by (auto simp: w'_def)
  show "output_under_limit (db w') (t_record clk)"
    if o: "output_under_limit (db w) t0"
      and m: "served encoding isoformat (Request authorization request clk) w
                \<longrightarrow> modest encoding (Request authorization request clk)"
  proof -
    from c show ?thesis
    proof (elim disjE exE conjE)
      assume "db (snd (chat_completions encoding isoformat request authorization clk w)) = db w"
      then show ?thesis
        using under_limits_mono(2) [OF s le(7) o] by (simp add: w'_def)
    next
      fix k
      assume a1: "window_total (rpm_key (get_redis_keys k)) (t_rpm clk) (db w) + 1
                    \<le> rpm (get_api_key_limits k)"
        and a2: "window_total (input_tpm_key (get_redis_keys k)) (t_input_tpm clk) (db w) + ?a
                    \<le> input_tpm (get_api_key_limits k)"
        and a3: "window_total (output_tpm_key (get_redis_keys k)) (t_output_tpm clk) (db w)
                    + output_reservation request \<le> output_tpm (get_api_key_limits k)"
        and d: "db (snd (chat_completions encoding isoformat request authorization clk w))
                  = recorded k ?a ?b (t_record clk) (db w)"
        and f: "fits (rpm_key (get_redis_keys k)) 1 (t_record clk) (db w)
               \<and> fits (input_tpm_key (get_redis_keys k)) ?a (t_record clk) (db w)
               \<and> fits (output_tpm_key (get_redis_keys k)) ?b (t_record clk) (db w)
              \<longrightarrow> (\<exists>hs body. fst (chat_completions encoding isoformat request authorization clk w)
                     = JSONResponse 200 hs body)"
      have f1: "fits (rpm_key (get_redis_keys k)) 1 (t_record clk) (db w)"
        using ur limits_bounded(1) [of k]
        by (intro fits_small [OF sr]) (auto simp: under_limits_def intro: order_trans)
      have "0 \<le> window_total (input_tpm_key (get_redis_keys k)) (t_input_tpm clk) (db w)"
        by (rule window_total_nonneg [OF sane_mono [OF s le(2)]])
      with a2 limits_bounded(2) [of k] have "?a \<le> 100000" by simp
      then have f2: "fits (input_tpm_key (get_redis_keys k)) ?a (t_record clk) (db w)"
        using ur limits_bounded(2) [of k] estimate_nonneg [of encoding request]
        by (intro fits_small [OF sr]) (auto simp: under_limits_def intro: order_trans)
      have "?b \<le> output_reservation request"
        if "fits (output_tpm_key (get_redis_keys k)) ?b (t_record clk) (db w)"
      proof -
        from f f1 f2 that obtain hs body where
          "fst (chat_completions encoding isoformat request authorization clk w)
             = JSONResponse 200 hs body" by blast
        then have "served encoding isoformat (Request authorization request clk) w" by simp
        with m show ?thesis by simp
      qed
      then have "output_under_limit (recorded k ?a ?b (t_record clk) (db w)) (t_record clk)"
        by (rule output_under_limit_recorded [OF s o le(3,6) a3])
      then show ?thesis by (simp add: w'_def d)
    qed
  qed
qed

lemma clean_step:
  fixes encoding :: "string \<Rightarrow> nat list" and isoformat :: "datetime \<Rightarrow> string"
  assumes s: "sane (db w) t0" and t: "sorted (t0 # event_times (Clean i now t_del))"
  defines "w' \<equiv> run_event encoding isoformat (Clean i now t_del) w"
  shows "sane (db w') t_del"
    and "under_limits (db w) t0 \<Longrightarrow> under_limits (db w') t_del"
    and "output_under_limit (db w) t0 \<Longrightarrow> output_under_limit (db w') t_del"
proof -
  have le: "t0 \<le> t_del" "now \<le> t_del" using t by simp_all
  have sr: "sane (db w) t_del" by (rule sane_mono [OF s le(1)])
  have w: "window_total key t_del (db w') = window_total key t_del (db w)" for key
    unfolding w'_def by (rule window_total_clean_event) (simp_all add: le)
  from clean_event_db [of "Clean i now t_del" encoding isoformat w]
  show "sane (db w') t_del"
    using sr by (auto simp: w'_def sane_HDEL simp del: run_event.simps)
  show "under_limits (db w') t_del" if "under_limits (db w) t0"
    using under_limits_mono(1) [OF s le(1) that] by (simp add: under_limits_def w)
  show "output_under_limit (db w') t_del" if "output_under_limit (db w) t0"
    using under_limits_mono(2) [OF s le(1) that] by (simp add: output_under_limit_def w)
qed

lemma event_times_last:
  "event_times ev \<noteq> []" "last (event_times (Request a r c)) = t_record c"
  "last (event_times (Clean i now t_del)) = t_del"
  by (cases ev) simp_all

lemma event_step:
  assumes s: "sane (db w) t0" and u: "under_limits (db w) t0"
    and t: "sorted (t0 # event_times ev)"
  shows "sane (db (run_event encoding isoformat ev w)) (last (event_times ev))
     \<and> under_limits (db (run_event encoding isoformat ev w)) (last (event_times ev))
     \<and> (output_under_limit (db w) t0
          \<and> (served encoding isoformat ev w \<longrightarrow> modest encoding ev) \<longrightarrow>
          output_under_limit (db (run_event encoding isoformat ev w)) (last (event_times ev)))"
proof (cases ev)
  case (Request a r c)
  show ?thesis
    unfolding Request event_times_last
    using request_step [OF s u t [unfolded Request], of encoding isoformat] by blast
next
  case (Clean i now t_del)
  show ?thesis
    unfolding Clean event_times_last
    using clean_step [OF s t [unfolded Clean], of encoding isoformat] u by blast
qed

lemma run_invariant:
  assumes "sane (db w) t0" "under_limits (db w) t0" "sorted (t0 # trace_times evs)"
  shows "sane (db (run encoding isoformat evs w)) (last (t0 # trace_times evs))
     \<and> under_limits (db (run encoding isoformat evs w)) (last (t0 # trace_times evs))
     \<and> (output_under_limit (db w) t0 \<and> reservations_kept encoding isoformat evs w \<longrightarrow>
          output_under_limit (db (run encoding isoformat evs w)) (last (t0 # trace_times evs)))"
  using assms
proof (induction evs arbitrary: w t0)
  case Nil
  then show ?case by (simp add: run_def trace_times_def)
next
  case (Cons ev evs)
  let ?w = "run_event encoding isoformat ev w" and ?t = "last (event_times ev)"
  have ne: "event_times ev \<noteq> []" by (rule event_times_last)
  have srt: "sorted (t0 # event_times ev @ trace_times evs)"
    using Cons.prems(3) by (simp add: trace_times_def)
  then have 1: "sorted (t0 # event_times ev)"
    by (simp add: sorted_append)
  have 2: "sorted (?t # trace_times evs)"
    using srt ne by (auto simp: sorted_append)
  have l: "last (t0 # trace_times (ev # evs)) = last (?t # trace_times evs)"
    using ne by (simp add: trace_times_def last_append)
  note st = event_step [OF Cons.prems(1,2) 1, of encoding isoformat]
  from st have s: "sane (db ?w) ?t" and u: "under_limits (db ?w) ?t" by blast+
  note IH = Cons.IH [OF s u 2]
  show ?case
    unfolding l using IH st by (auto simp: run_def simp del: served.simps run_event.simps)
qed

text \<open>
  \<^bold>\<open>C2\<close> (as the code has it). Starting from an empty store, after any sequence of
  requests served one after the other (cleaning tasks running in between, the clock
  never going back), at every later time the requests and the input tokens in the window
  are within the limits of every key; the output tokens are within the limit as well
  provided that, for every request of the run that was admitted and recorded (answered
  with status 200), the completion recorded was no longer than the output reserved for
  it. Requests that are refused, rejected or fail are under no condition.
\<close>

theorem sequential_usage_within_limits:
  assumes "sorted (trace_times evs @ [t])"
  shows "window_total (rpm_key (get_redis_keys k)) t
             (db (run encoding isoformat evs (fresh_world fs))) \<le> rpm (get_api_key_limits k)
     \<and> window_total (input_tpm_key (get_redis_keys k)) t
             (db (run encoding isoformat evs (fresh_world fs)))
          \<le> input_tpm (get_api_key_limits k)
     \<and> (reservations_kept encoding isoformat evs (fresh_world fs) \<longrightarrow>
          window_total (output_tpm_key (get_redis_keys k)) t
             (db (run encoding isoformat evs (fresh_world fs)))
          \<le> output_tpm (get_api_key_limits k))"
proof -
  let ?ts = "trace_times evs" and ?w = "run encoding isoformat evs (fresh_world fs)"
  define t0 where "t0 = hd (?ts @ [t])"
  have srt: "sorted (t0 # ?ts)"
    using assms by (cases ?ts) (simp_all add: t0_def sorted_append)
  have le: "last (t0 # ?ts) \<le> t"
    using assms by (cases ?ts) (auto simp: t0_def sorted_append)
  have "sane (db (fresh_world fs)) t0" "under_limits (db (fresh_world fs)) t0"
    and o: "output_under_limit (db (fresh_world fs)) t0"
    by (simp_all add: sane_empty under_limits_empty)
  from run_invariant [OF this(1,2) srt, of encoding isoformat] o
  have s: "sane (db ?w) (last (t0 # ?ts))" and u: "under_limits (db ?w) (last (t0 # ?ts))"
    and ou: "reservations_kept encoding isoformat evs (fresh_world fs)
               \<longrightarrow> output_under_limit (db ?w) (last (t0 # ?ts))"
    by blast+
  from under_limits_mono [OF s le] u ou
  show ?thesis by (auto simp: under_limits_def output_under_limit_def)
qed

section \<open>Sample runs\<close>

lemma mock_content_sample:
  "generate_mock_content (sample_request None) 0
     = ''This is a mock response. Your request has been successfully processed.''"
  "generate_mock_content (sample_request (Some 1)) 0
     = ''This is a mock response. Your request has been successfully processed.''"
  by (simp_all add: generate_mock_content_def templates_def)

lemma completion_sample:
  "count_tokens char_encoding (generate_mock_content (sample_request None) 0) = 70"
  "count_tokens char_encoding (generate_mock_content (sample_request (Some 1)) 0) = 70"
  by (simp_all add: mock_content_sample count_tokens_def char_encoding_def)

lemma pick_sample [simp]: "pick (sample_clock t) = 0" "t_record (sample_clock t) = t"
  "t_rpm (sample_clock t) = t" "t_input_tpm (sample_clock t) = t"
  "t_output_tpm (sample_clock t) = t"
  by (simp_all add: sample_clock_def)

lemma sample_request_recorded:
  fixes t :: usec
  assumes f: "faults w = []"
    and m: "count_tokens char_encoding (generate_mock_content (sample_request mt) 0) = 70"
    and a: "window_total (rpm_key (get_redis_keys ''test-key-1'')) t (db w) + 1 \<le> 10000"
      "window_total (input_tpm_key (get_redis_keys ''test-key-1'')) t (db w) + 12 \<le> 1000"
      "window_total (output_tpm_key (get_redis_keys ''test-key-1'')) t (db w)
         + output_reservation (sample_request mt) \<le> 1000"
    and c: "fits (rpm_key (get_redis_keys ''test-key-1'')) 1 t (db w)"
      "fits (input_tpm_key (get_redis_keys ''test-key-1'')) 12 t (db w)"
      "fits (output_tpm_key (get_redis_keys ''test-key-1'')) 70 t (db w)"
  defines "ev \<equiv> Request (Some ''Bearer test-key-1'') (sample_request mt) (sample_clock t)"
  shows "faults (run_event char_encoding plain_isoformat ev w) = []"
    and "db (run_event char_encoding plain_isoformat ev w)
           = recorded ''test-key-1'' 12 70 t (db w)"
    and "served char_encoding plain_isoformat ev w"
proof -
  let ?clk = "sample_clock t"
  have ch: "check_rate_limit char_encoding ''test-key-1'' (sample_request mt) ?clk w
      = (Inr (True, snapshot ''test-key-1'' ?clk (db w)), after_trips 3 w)"
    using f a by (simp add: check_rate_limit_ok) (simp add: snapshot_def)
  have "chat_completions char_encoding plain_isoformat (sample_request mt)
          (Some ''Bearer test-key-1'') ?clk w
        = (JSONResponse 200
             (get_rate_limit_headers plain_isoformat ''test-key-1''
                (snapshot ''test-key-1'' ?clk (db w)) (t_headers ?clk))
             (Completion (generate_mock_response char_encoding (sample_request mt) ?clk)),
           (after_trips 1 (after_trips 3 w))\<lparr>db :=
               recorded ''test-key-1'' 12 70 t (db w),
             tasks := tasks w @ [rpm_key (get_redis_keys ''test-key-1''),
                input_tpm_key (get_redis_keys ''test-key-1''),
                output_tpm_key (get_redis_keys ''test-key-1'')]\<rparr>)"
    using chat_completions_admitted [OF extract_test_key_1 ch, of plain_isoformat] f c
    by (simp add: m)
  then show "faults (run_event char_encoding plain_isoformat ev w) = []"
    and "db (run_event char_encoding plain_isoformat ev w)
           = recorded ''test-key-1'' 12 70 t (db w)"
    and "served char_encoding plain_isoformat ev w"
    using f by (simp_all add: ev_def)
qed

lemma sorted_constant: "set xs \<subseteq> {c::int} \<Longrightarrow> sorted xs"
  by (induction xs) auto

lemma sample_requests_run:
  fixes t :: usec
  assumes "n \<le> 15"
  defines "w \<equiv> run char_encoding plain_isoformat
                  (replicate n (Request (Some ''Bearer test-key-1'') (sample_request (Some 1))
                     (sample_clock t))) (fresh_world [])"
  shows "faults w = []
    \<and> window_total (rpm_key (get_redis_keys ''test-key-1'')) t (db w) = int n
    \<and> window_total (input_tpm_key (get_redis_keys ''test-key-1'')) t (db w) = 12 * int n
    \<and> window_total (output_tpm_key (get_redis_keys ''test-key-1'')) t (db w) = 70 * int n
    \<and> counter (db w) t (rpm_key (get_redis_keys ''test-key-1'')) = int n
    \<and> counter (db w) t (input_tpm_key (get_redis_keys ''test-key-1'')) = 12 * int n
    \<and> counter (db w) t (output_tpm_key (get_redis_keys ''test-key-1'')) = 70 * int n"
  using assms(1) unfolding w_def
proof (induction n)
  case 0
  then show ?case by (simp add: run_def)
next
  case (Suc n)
  let ?ev = "Request (Some ''Bearer test-key-1'') (sample_request (Some 1)) (sample_clock t)"
  let ?w = "run char_encoding plain_isoformat (replicate n ?ev) (fresh_world [])"
  from Suc have IH: "faults ?w = []"
    "window_total (rpm_key (get_redis_keys ''test-key-1'')) t (db ?w) = int n"
    "window_total (input_tpm_key (get_redis_keys ''test-key-1'')) t (db ?w) = 12 * int n"
    "window_total (output_tpm_key (get_redis_keys ''test-key-1'')) t (db ?w) = 70 * int n"
    "counter (db ?w) t (rpm_key (get_redis_keys ''test-key-1'')) = int n"
    "counter (db ?w) t (input_tpm_key (get_redis_keys ''test-key-1'')) = 12 * int n"
    "counter (db ?w) t (output_tpm_key (get_redis_keys ''test-key-1'')) = 70 * int n"
    and n: "n \<le> 14"
    by simp_all
  have r: "run char_encoding plain_isoformat (replicate (Suc n) ?ev) (fresh_world [])
             = run_event char_encoding plain_isoformat ?ev ?w"
    by (simp add: run_def replicate_append_same [symmetric] del: replicate.simps run_event.simps)
  have c: "fits (rpm_key (get_redis_keys ''test-key-1'')) 1 t (db ?w)"
    "fits (input_tpm_key (get_redis_keys ''test-key-1'')) 12 t (db ?w)"
    "fits (output_tpm_key (get_redis_keys ''test-key-1'')) 70 t (db ?w)"
    using n by (simp_all add: fits_def int64_def IH)
  have "faults (run_event char_encoding plain_isoformat ?ev ?w) = []"
    and "db (run_event char_encoding plain_isoformat ?ev ?w)
          = recorded ''test-key-1'' 12 70 t (db ?w)"
    using n by (intro sample_request_recorded c completion_sample;
                simp add: IH output_reservation_def)+
  then show ?case
    unfolding r using IH c by (simp add: window_total_recorded counter_recorded)
qed

text \<open>
  A run of the theorem for \<^bold>\<open>C2\<close>: in \<open>sample_trace\<close> the first request is served
  and recorded, the request without credentials is under no condition although its
  completion would exceed its reservation, and after the four events the window of
  \<open>test-key-1\<close> holds 1 request, 12 input tokens and 70 output tokens.
\<close>

theorem sequential_usage_within_limits_witness:
  "sorted (trace_times sample_trace @ [1700000003000000])
   \<and> reservations_kept char_encoding plain_isoformat sample_trace (fresh_world [])
   \<and> \<not> modest char_encoding (sample_trace ! 2)
   \<and> window_total (rpm_key (get_redis_keys ''test-key-1'')) 1700000003000000
        (db (run char_encoding plain_isoformat sample_trace (fresh_world []))) = 1
   \<and> window_total (input_tpm_key (get_redis_keys ''test-key-1'')) 1700000003000000
        (db (run char_encoding plain_isoformat sample_trace (fresh_world []))) = 12
   \<and> window_total (output_tpm_key (get_redis_keys ''test-key-1'')) 1700000003000000
        (db (run char_encoding plain_isoformat sample_trace (fresh_world []))) = 70
   \<and> window_total (rpm_key (get_redis_keys ''test-key-1'')) 1700000003000000
        (db (run char_encoding plain_isoformat sample_trace (fresh_world [])))
       \<le> rpm (get_api_key_limits ''test-key-1'')
   \<and> window_total (input_tpm_key (get_redis_keys ''test-key-1'')) 1700000003000000
        (db (run char_encoding plain_isoformat sample_trace (fresh_world [])))
       \<le> input_tpm (get_api_key_limits ''test-key-1'')
   \<and> window_total (output_tpm_key (get_redis_keys ''test-key-1'')) 1700000003000000
        (db (run char_encoding plain_isoformat sample_trace (fresh_world [])))
       \<le> output_tpm (get_api_key_limits ''test-key-1'')"
proof -
  let ?T = "1700000000000000 :: int" and ?T1 = "1700000001000000 :: int"
    and ?T2 = "1700000002000000 :: int" and ?t = "1700000003000000 :: int"
  let ?e1 = "Request (Some ''Bearer test-key-1'') (sample_request None) (sample_clock ?T)"
  let ?e2 = "Clean 0 ?T1 ?T1"
  let ?e3 = "Request None (sample_request (Some 1)) (sample_clock ?T2)"
  let ?e4 = "Request (Some ''Bearer test-key-1'') (sample_request None) (sample_clock ?T2)"
  let ?w0 = "fresh_world []"
  let ?w1 = "run_event char_encoding plain_isoformat ?e1 ?w0"
  let ?w2 = "run_event char_encoding plain_isoformat ?e2 ?w1"
  let ?w4 = "run_event char_encoding plain_isoformat ?e4 ?w2"
  let ?k1 = "rpm_key (get_redis_keys ''test-key-1'')"
    and ?k2 = "input_tpm_key (get_redis_keys ''test-key-1'')"
    and ?k3 = "output_tpm_key (get_redis_keys ''test-key-1'')"
  have srt: "sorted (trace_times sample_trace @ [?t])"
    by (simp add: sample_trace_def trace_times_def sample_clock_def)
  have seg: "get_current_segment ?T2 = get_current_segment ?T"
    "get_current_segment ?t = get_current_segment ?T"
    by (simp_all add: get_current_segment_def int_time_def trunc_div_def usec_per_sec_def
        segment_size_val)
  have fit: "fits ?k1 1 ?T empty_redis" "fits ?k2 12 ?T empty_redis" "fits ?k3 70 ?T empty_redis"
    by (simp_all add: fits_def int64_def)
  have w1: "faults ?w1 = []"
    by (rule sample_request_recorded(1))
       (simp_all add: completion_sample output_reservation_def fit)
  have "db ?w1 = recorded ''test-key-1'' 12 70 ?T (db ?w0)"
    by (rule sample_request_recorded(2))
       (simp_all add: completion_sample output_reservation_def fit)
  then have d1: "db ?w1 = recorded ''test-key-1'' 12 70 ?T empty_redis" by simp
  have s1: "served char_encoding plain_isoformat ?e1 ?w0"
    by (rule sample_request_recorded(3))
       (simp_all add: completion_sample output_reservation_def fit)
  have v1: "window_total ?k1 t' (db ?w1) = 1" "window_total ?k2 t' (db ?w1) = 12"
    "window_total ?k3 t' (db ?w1) = 70"
    if "get_current_segment t' = get_current_segment ?T" "?T \<le> t'" for t'
    using fit by (simp_all add: d1 window_total_recorded [OF that] del: run_event.simps)
  have w2: "faults ?w2 = []" by (rule faults_clean_event [OF _ w1]) simp
  have v2: "window_total key t' (db ?w2) = window_total key t' (db ?w1)" if "?T1 \<le> t'" for key t'
    by (rule window_total_clean_event) (simp_all add: that)
  have w3: "run_event char_encoding plain_isoformat ?e3 w = w" for w
    by (simp add: chat_completions_unauthorized extract_api_key_def)
  have s3: "\<not> served char_encoding plain_isoformat ?e3 w" for w
    by (simp add: chat_completions_unauthorized extract_api_key_def)
  have "check_rate_limit char_encoding ''test-key-1'' (sample_request None)
          (sample_clock ?T2) ?w2
        = (Inr (False, snapshot ''test-key-1'' (sample_clock ?T2) (db ?w2)), after_trips 3 ?w2)"
    using w2 by (simp add: check_rate_limit_ok del: run_event.simps)
      (simp add: snapshot_def v2 v1 seg output_reservation_def del: run_event.simps)
  then have c4: "chat_completions char_encoding plain_isoformat (sample_request None)
          (Some ''Bearer test-key-1'') (sample_clock ?T2) ?w2
        = (JSONResponse 429
             (get_rate_limit_headers plain_isoformat ''test-key-1''
                (snapshot ''test-key-1'' (sample_clock ?T2) (db ?w2))
                (t_headers (sample_clock ?T2)))
             (Rate_limit_error ''Rate limit exceeded'' ''rate_limit_exceeded''
                None ''rate_limit_exceeded''), after_trips 3 ?w2)"
    by (rule chat_completions_rejected [OF extract_test_key_1])
  have w4: "db ?w4 = db ?w2"
    by (subst run_event.simps) (simp add: c4 del: run_event.simps)
  have s4: "\<not> served char_encoding plain_isoformat ?e4 ?w2"
    by (simp add: c4 del: run_event.simps)
  have r: "run char_encoding plain_isoformat sample_trace ?w0 = ?w4"
    by (simp add: run_def sample_trace_def w3 del: run_event.simps)
  have rk: "reservations_kept char_encoding plain_isoformat sample_trace ?w0"
    using s1 s3 s4
    by (simp add: sample_trace_def w3 completion_sample output_reservation_def
        del: run_event.simps served.simps)
  have nm: "\<not> modest char_encoding (sample_trace ! 2)"
    by (simp add: sample_trace_def completion_sample output_reservation_def)
  have v: "window_total ?k1 ?t (db ?w4) = 1" "window_total ?k2 ?t (db ?w4) = 12"
    "window_total ?k3 ?t (db ?w4) = 70"
    by (simp_all add: w4 v2 v1 seg del: run_event.simps)
  show ?thesis
    using sequential_usage_within_limits [OF srt, of "''test-key-1''" char_encoding
        plain_isoformat "[]"] rk nm srt v
    by (simp add: r del: run_event.simps)
qed

text \<open>
  \<^bold>\<open>C2\<close> as stated fails for the output tokens. Fifteen requests for \<open>test-key-1\<close>
  (output limit 1000), each with \<open>max_tokens = 1\<close>, are served one after the other on
  an empty store, with a tokenizer that counts characters: each reserves 1 output token
  at admission and records the 70 of the mock completion, so all fifteen are admitted
  and recorded, and the output tokens in the window are then 1050.
\<close>

theorem output_limit_overrun_counterexample:
  "sorted (trace_times (replicate 15 (Request (Some ''Bearer test-key-1'')
              (sample_request (Some 1)) (sample_clock 1700000000000000)))
            @ [1700000000000000])
   \<and> window_total (rpm_key (get_redis_keys ''test-key-1'')) 1700000000000000
        (db (run char_encoding plain_isoformat
               (replicate 15 (Request (Some ''Bearer test-key-1'')
                  (sample_request (Some 1)) (sample_clock 1700000000000000)))
               (fresh_world []))) = 15
   \<and> window_total (output_tpm_key (get_redis_keys ''test-key-1'')) 1700000000000000
        (db (run char_encoding plain_isoformat
               (replicate 15 (Request (Some ''Bearer test-key-1'')
                  (sample_request (Some 1)) (sample_clock 1700000000000000)))
               (fresh_world []))) = 1050
   \<and> output_tpm (get_api_key_limits ''test-key-1'') = 1000"
proof -
  let ?ev = "Request (Some ''Bearer test-key-1'') (sample_request (Some 1))
               (sample_clock 1700000000000000)"
  have "set (trace_times (replicate 15 ?ev) @ [1700000000000000]) \<subseteq> {1700000000000000}"
    by (auto simp: trace_times_def sample_clock_def)
  then have "sorted (trace_times (replicate 15 ?ev) @ [1700000000000000])"
    by (rule sorted_constant)
  then show ?thesis
    using sample_requests_run [of 15 1700000000000000] by simp
qed

section \<open>A reservation of 1000 for \<open>max_tokens = 0\<close>\<close>

text \<open>
  \<^bold>\<open>C8\<close> as stated fails: with \<open>max_tokens\<close> set to 0 the reservation is 1000, not 0.
  After one recorded request \<open>test-key-1\<close> has used 70 of its 1000 output tokens; a
  request with \<open>max_tokens = 0\<close> is then rejected, as \<open>70 + 1000 > 1000\<close>, where a
  reservation of 0 would admit it.
\<close>

theorem output_reservation_zero_counterexample:
  "max_tokens (sample_request (Some 0)) = Some 0
   \<and> output_reservation (sample_request (Some 0)) = 1000
   \<and> window_total (output_tpm_key (get_redis_keys ''test-key-1'')) 1700000000000000
        (db (run char_encoding plain_isoformat
               [Request (Some ''Bearer test-key-1'') (sample_request (Some 1))
                  (sample_clock 1700000000000000)] (fresh_world []))) = 70
   \<and> fst (check_rate_limit char_encoding ''test-key-1'' (sample_request (Some 0))
          (sample_clock 1700000000000000)
          (run char_encoding plain_isoformat
             [Request (Some ''Bearer test-key-1'') (sample_request (Some 1))
                (sample_clock 1700000000000000)] (fresh_world [])))
      = Inr (False,
             snapshot ''test-key-1'' (sample_clock 1700000000000000)
               (db (run char_encoding plain_isoformat
                      [Request (Some ''Bearer test-key-1'') (sample_request (Some 1))
                         (sample_clock 1700000000000000)] (fresh_world []))))"
proof -
  let ?w = "run char_encoding plain_isoformat
              (replicate 1 (Request (Some ''Bearer test-key-1'') (sample_request (Some 1))
                 (sample_clock 1700000000000000))) (fresh_world [])"
  note r = sample_requests_run [of 1 1700000000000000]
  have o: "output_reservation (sample_request (Some 0)) = 1000"
    by (simp add: output_reservation_def)
  have "check_rate_limit char_encoding ''test-key-1'' (sample_request (Some 0))
          (sample_clock 1700000000000000) ?w
        = (Inr (False, snapshot ''test-key-1'' (sample_clock 1700000000000000) (db ?w)),
           after_trips 3 ?w)"
    using r by (simp add: check_rate_limit_ok del: replicate.simps)
      (simp add: snapshot_def o del: replicate.simps)
  then show ?thesis using r o by (simp del: run_event.simps)
qed

end
